theory Spec2Isabelle
  imports Main "HOL-Library.Word" "HOL-Library.Sublist"
begin

section \<open>JavaScript strings\<close>

text \<open>
  A JavaScript string is a sequence of UTF-16 code units. The literals of the source are
  written \<open>js ''...''\<close>: each ASCII character stands for its code unit.
\<close>

type_synonym cu = "16 word"
type_synonym jsstring = "cu list"

abbreviation js :: "string \<Rightarrow> jsstring" where
  "js s \<equiv> map of_char s"

text \<open>
  \<open>LineTerminator\<close> (LF, CR, LS, PS) is what the regular expression atom \<open>.\<close> refuses;
  \<open>WhiteSpace\<close> together with \<open>LineTerminator\<close> is what \<open>\s\<close> accepts and what
  \<open>String.prototype.trim\<close> strips; \<open>\d\<close> is an ASCII digit.
\<close>

definition isLineTerminator :: "cu \<Rightarrow> bool" where
  "isLineTerminator c \<longleftrightarrow> c = 0x0A \<or> c = 0x0D \<or> c = 0x2028 \<or> c = 0x2029"

definition isWhiteSpace :: "cu \<Rightarrow> bool" where
  "isWhiteSpace c \<longleftrightarrow>
     c = 0x09 \<or> c = 0x0B \<or> c = 0x0C \<or> c = 0x20 \<or> c = 0xA0 \<or> c = 0xFEFF \<or>
     c = 0x1680 \<or> (0x2000 \<le> c \<and> c \<le> 0x200A) \<or> c = 0x202F \<or> c = 0x205F \<or> c = 0x3000 \<or>
     isLineTerminator c"

definition isDigit :: "cu \<Rightarrow> bool" where
  "isDigit c \<longleftrightarrow> 0x30 \<le> c \<and> c \<le> 0x39"

definition startsWith :: "jsstring \<Rightarrow> jsstring \<Rightarrow> bool" where
  "startsWith s p \<longleftrightarrow> take (length p) s = p"

definition trim :: "jsstring \<Rightarrow> jsstring" where
  "trim s = rev (dropWhile isWhiteSpace (rev (dropWhile isWhiteSpace s)))"

text \<open>\<open>s.split('\n')\<close>: the pieces between line feeds; the empty string gives one empty piece.\<close>

fun splitOn :: "cu \<Rightarrow> jsstring \<Rightarrow> jsstring \<Rightarrow> jsstring list" where
  "splitOn sep cur [] = [cur]"
| "splitOn sep cur (c # s) =
     (if c = sep then cur # splitOn sep [] s else splitOn sep (cur @ [c]) s)"

definition splitLines :: "jsstring \<Rightarrow> jsstring list" where
  "splitLines s = splitOn 0x0A [] s"

text \<open>\<open>xs.join(sep)\<close> on an array of strings.\<close>

fun join :: "jsstring \<Rightarrow> jsstring list \<Rightarrow> jsstring" where
  "join sep [] = []"
| "join sep [x] = x"
| "join sep (x # y # ys) = x @ sep @ join sep (y # ys)"

section \<open>JavaScript values\<close>

text \<open>
  The converter builds object literals and reads loosely typed records (\<open>unknown[]\<close>), so
  its data are JavaScript values. An object is the list of its own properties (a key
  occurs once), whose values are JSON values, none of them callable. A number is kept by the two observations the converter can make of it:
  whether it is truthy, and its string form. \<open>JBuiltin\<close> is an inherited method: the
  property names the converter reads are \<open>type\<close>, the block type names, \<open>rich_text\<close>,
  \<open>checked\<close>, \<open>language\<close>, \<open>text\<close>, \<open>content\<close>, \<open>annotations\<close>, the annotation
  names, \<open>link\<close> and \<open>url\<close>, of which \<open>String.prototype\<close> defines \<open>bold\<close> and
  \<open>link\<close>. (Under the computed key \<open>b[type]\<close> an object can also reach a member of
  \<open>Object.prototype\<close>; such a member has no \<open>rich_text\<close>, so both renderers skip the
  block exactly as they do for \<open>undefined\<close>, which is what the lookup gives here.)
\<close>

datatype jsval =
    JUndefined
  | JNull
  | JBool bool
  | JNum bool jsstring
  | JStr jsstring
  | JArr "jsval list"
  | JObj "(jsstring \<times> jsval) list"
  | JBuiltin jsstring

datatype error = TypeError

fun nullish :: "jsval \<Rightarrow> bool" where
  "nullish JUndefined = True"
| "nullish JNull = True"
| "nullish _ = False"

text \<open>The value of a property of a value that is neither \<open>undefined\<close> nor \<open>null\<close>.\<close>

fun propOf :: "jsval \<Rightarrow> jsstring \<Rightarrow> jsval" where
  "propOf (JObj kvs) k = (case map_of kvs k of Some v \<Rightarrow> v | None \<Rightarrow> JUndefined)"
| "propOf (JStr s) k = (if k = js ''bold'' \<or> k = js ''link'' then JBuiltin k else JUndefined)"
| "propOf _ k = JUndefined"

text \<open>\<open>v.k\<close> raises a TypeError on \<open>undefined\<close> and \<open>null\<close>; \<open>v?.k\<close> gives \<open>undefined\<close> there.\<close>

definition getProp :: "jsval \<Rightarrow> jsstring \<Rightarrow> error + jsval" where
  "getProp v k = (if nullish v then Inl TypeError else Inr (propOf v k))"

definition optProp :: "jsval \<Rightarrow> jsstring \<Rightarrow> jsval" where
  "optProp v k = (if nullish v then JUndefined else propOf v k)"

fun truthy :: "jsval \<Rightarrow> bool" where
  "truthy JUndefined = False"
| "truthy JNull = False"
| "truthy (JBool b) = b"
| "truthy (JNum t s) = t"
| "truthy (JStr s) = (s \<noteq> [])"
| "truthy (JArr vs) = True"
| "truthy (JObj kvs) = True"
| "truthy (JBuiltin n) = True"

text \<open>\<open>a || b\<close>\<close>

definition orElse :: "jsval \<Rightarrow> jsval \<Rightarrow> jsval" where
  "orElse a b = (if truthy a then a else b)"

text \<open>
  \<open>ToString\<close>, as string concatenation, template literals, the computed key \<open>b[type]\<close>
  and \<open>Array.prototype.join\<close> apply it. An object is converted by its \<open>toString\<close>
  method: the inherited one gives \<open>[object Object]\<close>, but an own property of that name
  hides it, and since it is not callable (and \<open>valueOf\<close> never gives a primitive) the
  conversion raises a TypeError. An array is converted by joining its elements with
  commas; \<open>join\<close> renders \<open>undefined\<close> and \<open>null\<close> elements as the empty string and
  converts every other element, so it raises when one of them does.
\<close>

fun toString :: "jsval \<Rightarrow> error + jsstring"
  and elemStrings :: "jsval list \<Rightarrow> error + jsstring list" where
  "toString JUndefined = Inr (js ''undefined'')"
| "toString JNull = Inr (js ''null'')"
| "toString (JBool b) = Inr (if b then js ''true'' else js ''false'')"
| "toString (JNum t s) = Inr s"
| "toString (JStr s) = Inr s"
| "toString (JArr vs) =
     (case elemStrings vs of
        Inl e \<Rightarrow> Inl e
      | Inr ss \<Rightarrow> Inr (join (js '','') ss))"
| "toString (JObj kvs) =
     (case map_of kvs (js ''toString'') of
        Some v \<Rightarrow> Inl TypeError
      | None \<Rightarrow> Inr (js ''[object Object]''))"
| "toString (JBuiltin n) = Inr (js ''function '' @ n @ js ''() { [native code] }'')"
| "elemStrings [] = Inr []"
| "elemStrings (v # vs) =
     (case (if nullish v then Inr [] else toString v) of
        Inl e \<Rightarrow> Inl e
      | Inr s \<Rightarrow>
          (case elemStrings vs of
             Inl e \<Rightarrow> Inl e
           | Inr ss \<Rightarrow> Inr (s # ss)))"

text \<open>\<open>vs.join(sep)\<close> on an array of values.\<close>

definition arrayJoin :: "jsstring \<Rightarrow> jsval list \<Rightarrow> error + jsstring" where
  "arrayJoin sep vs =
     (case elemStrings vs of
        Inl e \<Rightarrow> Inl e
      | Inr ss \<Rightarrow> Inr (join sep ss))"

text \<open>The template literal \<open>`pre${v}post`\<close>.\<close>

definition template :: "jsstring \<Rightarrow> jsval \<Rightarrow> jsstring \<Rightarrow> error + jsval" where
  "template pre v post =
     (case toString v of
        Inl e \<Rightarrow> Inl e
      | Inr s \<Rightarrow> Inr (JStr (pre @ s @ post)))"

section \<open>The inline scanner\<close>

subsection \<open>The five regular expressions\<close>

text \<open>
  The result of \<open>regex.exec\<close>: \<open>match.index\<close>, \<open>match[0]\<close>, \<open>match[1]\<close> and \<open>match[2]\<close>
  (absent in the patterns with one group).
\<close>

record regmatch =
  m_index :: nat
  m_whole :: jsstring
  m_group1 :: jsstring
  m_group2 :: "jsstring option"

text \<open>
  \<open>Delimited d\<close> is \<open>/d(.+?)d/\<close> for a literal \<open>d\<close>: the source's bold (\<open>**\<close>), italic
  (\<open>*\<close>), strikethrough (\<open>~~\<close>) and code (a backtick) patterns. \<open>LinkPattern\<close> is
  \<open>/\[([^\]]+)\]\(([^)]+)\)/\<close>.
\<close>

datatype regex = Delimited jsstring | LinkPattern

text \<open>
  \<open>(.+?)d\<close> once the group holds \<open>acc\<close> (at least one code unit): the lazy quantifier
  tries the closing delimiter first and takes one more code unit, never a line
  terminator, only when the delimiter is not there.
\<close>

fun lazyDot :: "jsstring \<Rightarrow> jsstring \<Rightarrow> jsstring \<Rightarrow> jsstring option" where
  "lazyDot d acc [] = (if startsWith [] d then Some acc else None)"
| "lazyDot d acc (c # r) =
     (if startsWith (c # r) d then Some acc
      else if isLineTerminator c then None
      else lazyDot d (acc @ [c]) r)"

text \<open>\<open>d(.+?)d\<close> matched at the head of \<open>s\<close>: the captured group.\<close>

definition delimitedAt :: "jsstring \<Rightarrow> jsstring \<Rightarrow> jsstring option" where
  "delimitedAt d s =
     (if startsWith s d then
        (case drop (length d) s of
           [] \<Rightarrow> None
         | c # r \<Rightarrow> if isLineTerminator c then None else lazyDot d [c] r)
      else None)"

text \<open>
  The link pattern matched at the head of \<open>s\<close>: the two captured groups. Each greedy
  class is followed by the one code unit it excludes, so giving code units back never
  helps: the class takes its longest run or the match fails at this start.
\<close>

definition linkAt :: "jsstring \<Rightarrow> (jsstring \<times> jsstring) option" where
  "linkAt s =
     (case s of
        [] \<Rightarrow> None
      | c # r \<Rightarrow>
          if c \<noteq> of_char CHR ''['' then None
          else
            let t = takeWhile (\<lambda>x. x \<noteq> of_char CHR '']'') r;
                r1 = dropWhile (\<lambda>x. x \<noteq> of_char CHR '']'') r
            in if t = [] \<or> \<not> startsWith r1 (js '']('') then None
               else
                 let r2 = drop 2 r1;
                     u = takeWhile (\<lambda>x. x \<noteq> of_char CHR '')'') r2;
                     r3 = dropWhile (\<lambda>x. x \<noteq> of_char CHR '')'') r2
                 in if u = [] \<or> \<not> startsWith r3 (js '')'') then None
                    else Some (t, u))"

definition matchAt :: "regex \<Rightarrow> nat \<Rightarrow> jsstring \<Rightarrow> regmatch option" where
  "matchAt re i s =
     (case re of
        Delimited d \<Rightarrow>
          (case delimitedAt d s of
             None \<Rightarrow> None
           | Some g \<Rightarrow>
               Some \<lparr>m_index = i, m_whole = d @ g @ d, m_group1 = g, m_group2 = None\<rparr>)
      | LinkPattern \<Rightarrow>
          (case linkAt s of
             None \<Rightarrow> None
           | Some (t, u) \<Rightarrow>
               Some \<lparr>m_index = i, m_whole = js ''['' @ t @ js '']('' @ u @ js '')'',
                     m_group1 = t, m_group2 = Some u\<rparr>))"

text \<open>
  \<open>regex.exec(s)\<close> with \<open>lastIndex = 0\<close>: the match at the leftmost start that has
  one, the end of the string included.
\<close>

fun searchFrom :: "regex \<Rightarrow> nat \<Rightarrow> jsstring \<Rightarrow> regmatch option" where
  "searchFrom re i [] = matchAt re i []"
| "searchFrom re i (c # r) =
     (case matchAt re i (c # r) of
        Some m \<Rightarrow> Some m
      | None \<Rightarrow> searchFrom re (Suc i) r)"

definition exec :: "regex \<Rightarrow> jsstring \<Rightarrow> regmatch option" where
  "exec re s = searchFrom re 0 s"

definition patterns :: "(regex \<times> jsstring) list" where
  "patterns =
     [(Delimited (js ''**''), js ''bold''),
      (Delimited (js ''*''), js ''italic''),
      (Delimited (js ''~~''), js ''strikethrough''),
      (Delimited [0x60], js ''code''),
      (LinkPattern, js ''link'')]"

subsection \<open>parseInlineFormatting\<close>

record earliest =
  e_index :: nat
  e_length :: nat
  e_content :: jsstring
  e_annotation :: jsstring
  e_url :: "jsstring option"

text \<open>The body of the \<open>for\<close> loop over the patterns, for one pattern.\<close>

definition consider_pattern ::
  "jsstring \<Rightarrow> earliest option \<Rightarrow> regex \<times> jsstring \<Rightarrow> earliest option" where
  "consider_pattern remaining earliestMatch p =
     (case p of (regex, annotation) \<Rightarrow>
        (case exec regex remaining of
           None \<Rightarrow> earliestMatch
         | Some m \<Rightarrow>
             if (case earliestMatch of None \<Rightarrow> True | Some e \<Rightarrow> m_index m < e_index e)
             then
               (if annotation = js ''link''
                then Some \<lparr>e_index = m_index m, e_length = length (m_whole m),
                           e_content = m_group1 m, e_annotation = annotation,
                           e_url = m_group2 m\<rparr>
                else Some \<lparr>e_index = m_index m, e_length = length (m_whole m),
                           e_content = m_group1 m, e_annotation = annotation,
                           e_url = None\<rparr>)
             else earliestMatch))"

fun scanPatterns ::
  "(regex \<times> jsstring) list \<Rightarrow> jsstring \<Rightarrow> earliest option \<Rightarrow> earliest option" where
  "scanPatterns [] remaining earliestMatch = earliestMatch"
| "scanPatterns (p # ps) remaining earliestMatch =
     scanPatterns ps remaining (consider_pattern remaining earliestMatch p)"

definition findEarliest :: "jsstring \<Rightarrow> earliest option" where
  "findEarliest remaining = scanPatterns patterns remaining None"

text \<open>The two object literals the scanner pushes.\<close>

definition plainRun :: "jsstring \<Rightarrow> jsval" where
  "plainRun content =
     JObj [(js ''type'', JStr (js ''text'')),
           (js ''text'', JObj [(js ''content'', JStr content)])]"

definition formattedRun :: "earliest \<Rightarrow> jsval" where
  "formattedRun em =
     JObj [(js ''type'', JStr (js ''text'')),
           (js ''text'',
              JObj [(js ''content'', JStr (e_content em)),
                    (js ''link'',
                       (case e_url em of
                          Some u \<Rightarrow> if u \<noteq> [] then JObj [(js ''url'', JStr u)] else JNull
                        | None \<Rightarrow> JNull))]),
           (js ''annotations'',
              (if e_annotation em \<noteq> js ''link''
               then JObj [(e_annotation em, JBool True)]
               else JObj []))]"

text \<open>
  Every match holds at least one code unit, so the \<open>while\<close> loop consumes the input:
  this is what makes the scanner terminate.
\<close>

lemma lazyDot_nonempty: "lazyDot d acc s = Some g \<Longrightarrow> acc \<noteq> [] \<Longrightarrow> g \<noteq> []"
  by (induction d acc s rule: lazyDot.induct) (auto split: if_splits)

lemma delimitedAt_nonempty: "delimitedAt d s = Some g \<Longrightarrow> g \<noteq> []"
  by (auto simp: delimitedAt_def split: if_splits list.splits dest: lazyDot_nonempty)

lemma matchAt_whole: "matchAt re i s = Some m \<Longrightarrow> m_whole m \<noteq> []"
  by (auto simp: matchAt_def split: regex.splits option.splits dest: delimitedAt_nonempty)

lemma searchFrom_whole: "searchFrom re i s = Some m \<Longrightarrow> m_whole m \<noteq> []"
  by (induction re i s rule: searchFrom.induct) (auto split: option.splits dest: matchAt_whole)

lemma exec_whole: "exec re s = Some m \<Longrightarrow> m_whole m \<noteq> []"
  by (auto simp: exec_def dest: searchFrom_whole)

lemma consider_pattern_length:
  "consider_pattern r em p = Some e \<Longrightarrow> (\<forall>e0. em = Some e0 \<longrightarrow> 0 < e_length e0) \<Longrightarrow>
   0 < e_length e"
  by (cases p) (auto simp: consider_pattern_def split: option.splits if_splits dest: exec_whole)

lemma scanPatterns_length:
  "scanPatterns ps r em = Some e \<Longrightarrow> (\<forall>e0. em = Some e0 \<longrightarrow> 0 < e_length e0) \<Longrightarrow>
   0 < e_length e"
proof (induction ps arbitrary: em)
  case Nil
  then show ?case by simp
next
  case (Cons p ps)
  show ?case
  proof (rule Cons.IH)
    show "scanPatterns ps r (consider_pattern r em p) = Some e"
      using Cons.prems(1) by simp
    show "\<forall>e0. consider_pattern r em p = Some e0 \<longrightarrow> 0 < e_length e0"
      using consider_pattern_length Cons.prems(2) by blast
  qed
qed

lemma findEarliest_length: "findEarliest r = Some e \<Longrightarrow> 0 < e_length e"
  unfolding findEarliest_def by (erule scanPatterns_length) simp

text \<open>The \<open>while\<close> loop, with \<open>remaining\<close> and \<open>result\<close> as its state.\<close>

function scanInline :: "jsstring \<Rightarrow> jsval list \<Rightarrow> jsval list" where
  "scanInline remaining result =
     (if 0 < length remaining then
        (case findEarliest remaining of
           Some em \<Rightarrow>
             scanInline (drop (e_index em + e_length em) remaining)
               ((if 0 < e_index em
                 then result @ [plainRun (take (e_index em) remaining)]
                 else result) @ [formattedRun em])
         | None \<Rightarrow>
             (if 0 < length remaining then result @ [plainRun remaining] else result))
      else result)"
  by pat_completeness auto
termination
  by (relation "measure (\<lambda>(remaining, result). length remaining)")
     (auto dest: findEarliest_length)

declare scanInline.simps [simp del]

definition parseInlineFormatting :: "jsstring \<Rightarrow> jsval list" where
  "parseInlineFormatting text =
     (let result = scanInline text []
      in if 0 < length result then result else [plainRun text])"

section \<open>The forward pipeline\<close>

subsection \<open>lineToBlock\<close>

text \<open>
  \<open>/^(\d+)\.\s+(.+)$/\<close>, the second group. The digits are taken greedily and must be
  followed by the dot. \<open>\s+\<close> is greedy too and gives back one code unit at a time, as
  long as it keeps one, until what is left up to the end of the string is not empty and
  holds no line terminator: \<open>numberedBacktrack n r\<close> tries \<open>\s+\<close> with \<open>n\<close> code units.
\<close>

fun numberedBacktrack :: "nat \<Rightarrow> jsstring \<Rightarrow> jsstring option" where
  "numberedBacktrack 0 r = None"
| "numberedBacktrack (Suc n) r =
     (let g = drop (Suc n) r
      in if g \<noteq> [] \<and> \<not> list_ex isLineTerminator g then Some g
         else numberedBacktrack n r)"

definition numberedMatch :: "jsstring \<Rightarrow> jsstring option" where
  "numberedMatch s =
     (if takeWhile isDigit s = [] then None
      else
        (case dropWhile isDigit s of
           [] \<Rightarrow> None
         | c # r \<Rightarrow>
             if c \<noteq> of_char CHR ''.'' then None
             else numberedBacktrack (length (takeWhile isWhiteSpace r)) r))"

text \<open>The object literal of a block that carries rich text, and the to-do block.\<close>

definition richBlock :: "jsstring \<Rightarrow> jsval list \<Rightarrow> jsval" where
  "richBlock ty rich_text =
     JObj [(js ''object'', JStr (js ''block'')),
           (js ''type'', JStr ty),
           (ty, JObj [(js ''rich_text'', JArr rich_text)])]"

definition todoBlock :: "jsval list \<Rightarrow> bool \<Rightarrow> jsval" where
  "todoBlock rich_text checked =
     JObj [(js ''object'', JStr (js ''block'')),
           (js ''type'', JStr (js ''to_do'')),
           (js ''to_do'', JObj [(js ''rich_text'', JArr rich_text),
                                (js ''checked'', JBool checked)])]"

definition dividerBlock :: jsval where
  "dividerBlock =
     JObj [(js ''object'', JStr (js ''block'')),
           (js ''type'', JStr (js ''divider'')),
           (js ''divider'', JObj [])]"

text \<open>\<open>None\<close> is the source's \<open>null\<close>: a blank line gives no block.\<close>

definition lineToBlock :: "jsstring \<Rightarrow> jsval option" where
  "lineToBlock line =
     (let trimmed = trim line in
      if trimmed = [] then None
      else if startsWith trimmed (js ''# '') then
        Some (richBlock (js ''heading_1'') (parseInlineFormatting (drop 2 trimmed)))
      else if startsWith trimmed (js ''## '') then
        Some (richBlock (js ''heading_2'') (parseInlineFormatting (drop 3 trimmed)))
      else if startsWith trimmed (js ''### '') then
        Some (richBlock (js ''heading_3'') (parseInlineFormatting (drop 4 trimmed)))
      else if startsWith trimmed (js ''- [ ] '') \<or> startsWith trimmed (js ''- [x] '') then
        (let checked = startsWith trimmed (js ''- [x] '');
             content = drop 6 trimmed
         in Some (todoBlock (parseInlineFormatting content) checked))
      else if startsWith trimmed (js ''- '') \<or> startsWith trimmed (js ''* '') then
        Some (richBlock (js ''bulleted_list_item'') (parseInlineFormatting (drop 2 trimmed)))
      else
        (case numberedMatch trimmed of
           Some g \<Rightarrow> Some (richBlock (js ''numbered_list_item'') (parseInlineFormatting g))
         | None \<Rightarrow>
             if startsWith trimmed (js ''> '') then
               Some (richBlock (js ''quote'') (parseInlineFormatting (drop 2 trimmed)))
             else if trimmed = js ''---'' \<or> trimmed = js ''***'' \<or> trimmed = js ''___'' then
               Some dividerBlock
             else Some (richBlock (js ''paragraph'') (parseInlineFormatting trimmed))))"

subsection \<open>parseCodeBlocks\<close>

record part =
  p_content :: jsstring
  p_isCode :: bool
  p_language :: "jsstring option"

record fence_state =
  parts :: "part list"
  inCodeBlock :: bool
  codeContent :: "jsstring list"
  codeLanguage :: jsstring
  textContent :: "jsstring list"

text \<open>\<open>codeLanguage || 'plain text'\<close> on strings.\<close>

definition languageOr :: "jsstring \<Rightarrow> jsstring" where
  "languageOr l = (if l \<noteq> [] then l else js ''plain text'')"

text \<open>The body of the loop over the lines.\<close>

definition fence_step :: "fence_state \<Rightarrow> jsstring \<Rightarrow> fence_state" where
  "fence_step st line =
     (if startsWith line [0x60, 0x60, 0x60] then
        (if inCodeBlock st then
           st\<lparr>parts := parts st @
                  [\<lparr>p_content = join [0x0A] (codeContent st), p_isCode = True,
                    p_language = Some (languageOr (codeLanguage st))\<rparr>],
              codeContent := [], codeLanguage := [], inCodeBlock := False\<rparr>
         else
           (let st1 =
              (if 0 < length (textContent st)
               then st\<lparr>parts := parts st @
                          [\<lparr>p_content = join [0x0A] (textContent st), p_isCode = False,
                            p_language = None\<rparr>],
                       textContent := []\<rparr>
               else st)
            in st1\<lparr>codeLanguage := trim (drop 3 line), inCodeBlock := True\<rparr>))
      else if inCodeBlock st then st\<lparr>codeContent := codeContent st @ [line]\<rparr>
      else st\<lparr>textContent := textContent st @ [line]\<rparr>)"

definition fence_init :: fence_state where
  "fence_init =
     \<lparr>parts = [], inCodeBlock = False, codeContent = [], codeLanguage = [],
      textContent = []\<rparr>"

text \<open>The two flushes after the loop.\<close>

definition fence_finish :: "fence_state \<Rightarrow> part list" where
  "fence_finish st =
     (let parts1 =
        (if 0 < length (textContent st)
         then parts st @ [\<lparr>p_content = join [0x0A] (textContent st), p_isCode = False,
                            p_language = None\<rparr>]
         else parts st)
      in if 0 < length (codeContent st)
         then parts1 @ [\<lparr>p_content = join [0x0A] (codeContent st), p_isCode = True,
                          p_language = Some (languageOr (codeLanguage st))\<rparr>]
         else parts1)"

definition parseCodeBlocks :: "jsstring \<Rightarrow> part list" where
  "parseCodeBlocks markdown = fence_finish (foldl fence_step fence_init (splitLines markdown))"

subsection \<open>markdownToBlocks\<close>

definition codeBlock :: "jsstring \<Rightarrow> jsstring \<Rightarrow> jsval" where
  "codeBlock content language =
     JObj [(js ''object'', JStr (js ''block'')),
           (js ''type'', JStr (js ''code'')),
           (js ''code'',
              JObj [(js ''rich_text'', JArr [plainRun content]),
                    (js ''language'', JStr language)])]"

text \<open>
  The blocks one part pushes. \<open>part.language || 'plain text'\<close>: an absent language and
  the empty one give the default.
\<close>

definition partBlocks :: "part \<Rightarrow> jsval list" where
  "partBlocks p =
     (if p_isCode p then
        [codeBlock (p_content p)
           (case p_language p of
              Some l \<Rightarrow> if l \<noteq> [] then l else js ''plain text''
            | None \<Rightarrow> js ''plain text'')]
      else List.map_filter lineToBlock (splitLines (p_content p)))"

definition markdownToBlocks :: "jsstring \<Rightarrow> jsval list" where
  "markdownToBlocks markdown = concat (map partBlocks (parseCodeBlocks markdown))"

section \<open>The reverse pipeline\<close>

text \<open>A function mapped over an array; the first exception ends the map.\<close>

fun mapE :: "('a \<Rightarrow> error + 'b) \<Rightarrow> 'a list \<Rightarrow> error + 'b list" where
  "mapE f [] = Inr []"
| "mapE f (x # xs) =
     (case f x of
        Inl e \<Rightarrow> Inl e
      | Inr y \<Rightarrow> (case mapE f xs of Inl e \<Rightarrow> Inl e | Inr ys \<Rightarrow> Inr (y # ys)))"

fun isArray :: "jsval \<Rightarrow> bool" where
  "isArray (JArr vs) = True"
| "isArray _ = False"

subsection \<open>richTextToMarkdown\<close>

text \<open>
  The arrow function mapped over the runs. \<open>rt.text\<close> raises on a run that is
  \<open>undefined\<close> or \<open>null\<close>; every later read is guarded by \<open>?.\<close> or by the test before
  it; each template literal converts what it wraps to a string, which can raise. The
  result is the content itself when nothing wraps it, a string otherwise.
\<close>

definition renderRun :: "jsval \<Rightarrow> error + jsval" where
  "renderRun rt =
     (case getProp rt (js ''text'') of
        Inl e \<Rightarrow> Inl e
      | Inr t \<Rightarrow>
          (let text0 = orElse (optProp t (js ''content'')) (JStr []);
               annotations = propOf rt (js ''annotations'')
           in
           case (if truthy (optProp annotations (js ''code''))
                 then template [0x60] text0 [0x60] else Inr text0) of
             Inl e \<Rightarrow> Inl e
           | Inr text1 \<Rightarrow>
           (case (if truthy (optProp annotations (js ''bold''))
                  then template (js ''**'') text1 (js ''**'') else Inr text1) of
              Inl e \<Rightarrow> Inl e
            | Inr text2 \<Rightarrow>
            (case (if truthy (optProp annotations (js ''italic''))
                   then template (js ''*'') text2 (js ''*'') else Inr text2) of
               Inl e \<Rightarrow> Inl e
             | Inr text3 \<Rightarrow>
             (case (if truthy (optProp annotations (js ''strikethrough''))
                    then template (js ''~~'') text3 (js ''~~'') else Inr text3) of
                Inl e \<Rightarrow> Inl e
              | Inr text4 \<Rightarrow>
                  (let url = optProp (optProp t (js ''link'')) (js ''url'')
                   in if truthy url then
                        (case toString text4 of
                           Inl e \<Rightarrow> Inl e
                         | Inr s \<Rightarrow>
                             (case toString url of
                                Inl e \<Rightarrow> Inl e
                              | Inr u \<Rightarrow>
                                  Inr (JStr (js ''['' @ s @ js '']('' @ u @ js '')''))))
                      else Inr text4))))))"

definition richTextToMarkdown :: "jsval \<Rightarrow> error + jsstring" where
  "richTextToMarkdown richText =
     (if \<not> truthy richText \<or> \<not> isArray richText then Inr []
      else
        (case richText of
           JArr rts \<Rightarrow>
             (case mapE renderRun rts of
                Inl e \<Rightarrow> Inl e
              | Inr ts \<Rightarrow> arrayJoin [] ts)
         | _ \<Rightarrow> Inr []))"

subsection \<open>blocksToMarkdown\<close>

text \<open>
  \<open>lines.push(pre + richTextToMarkdown((b.k as Record).rich_text))\<close>: the read of
  \<open>rich_text\<close> raises when the block has no payload under \<open>k\<close>.
\<close>

definition richLine :: "jsstring \<Rightarrow> jsval \<Rightarrow> jsstring \<Rightarrow> error + jsstring list" where
  "richLine pre b k =
     (case getProp (propOf b k) (js ''rich_text'') of
        Inl e \<Rightarrow> Inl e
      | Inr richText \<Rightarrow>
          (case richTextToMarkdown richText of
             Inl e \<Rightarrow> Inl e
           | Inr s \<Rightarrow> Inr [pre @ s]))"

text \<open>
  The lines one block pushes: the body of the loop, with its \<open>switch\<close>. The computed
  key of the \<open>default\<close> arm and the concatenation \<open>'```' + lang\<close> convert a value to a
  string, which can raise.
\<close>

definition blockLines :: "jsval \<Rightarrow> error + jsstring list" where
  "blockLines b =
     (case getProp b (js ''type'') of
        Inl e \<Rightarrow> Inl e
      | Inr ty \<Rightarrow>
          if ty = JStr (js ''paragraph'') then richLine [] b (js ''paragraph'')
          else if ty = JStr (js ''heading_1'') then richLine (js ''# '') b (js ''heading_1'')
          else if ty = JStr (js ''heading_2'') then richLine (js ''## '') b (js ''heading_2'')
          else if ty = JStr (js ''heading_3'') then richLine (js ''### '') b (js ''heading_3'')
          else if ty = JStr (js ''bulleted_list_item'') then
            richLine (js ''- '') b (js ''bulleted_list_item'')
          else if ty = JStr (js ''numbered_list_item'') then
            richLine (js ''1. '') b (js ''numbered_list_item'')
          else if ty = JStr (js ''to_do'') then
            (let todo = propOf b (js ''to_do'') in
             case getProp todo (js ''checked'') of
               Inl e \<Rightarrow> Inl e
             | Inr c \<Rightarrow>
                 (let checked = (if truthy c then js ''x'' else js '' '') in
                  case richTextToMarkdown (propOf todo (js ''rich_text'')) of
                    Inl e \<Rightarrow> Inl e
                  | Inr s \<Rightarrow> Inr [js ''- ['' @ checked @ js ''] '' @ s]))
          else if ty = JStr (js ''quote'') then richLine (js ''> '') b (js ''quote'')
          else if ty = JStr (js ''code'') then
            (let code = propOf b (js ''code'') in
             case getProp code (js ''language'') of
               Inl e \<Rightarrow> Inl e
             | Inr l \<Rightarrow>
                 (let lang = orElse l (JStr []) in
                  case toString lang of
                    Inl e \<Rightarrow> Inl e
                  | Inr ls \<Rightarrow>
                      (case richTextToMarkdown (propOf code (js ''rich_text'')) of
                         Inl e \<Rightarrow> Inl e
                       | Inr s \<Rightarrow> Inr [[0x60, 0x60, 0x60] @ ls, s, [0x60, 0x60, 0x60]])))
          else if ty = JStr (js ''divider'') then Inr [js ''---'']
          else
            (case toString ty of
               Inl e \<Rightarrow> Inl e
             | Inr key \<Rightarrow>
                 (let payload = propOf b key in
                  if truthy payload \<and> truthy (propOf payload (js ''rich_text''))
                  then
                    (case richTextToMarkdown (propOf payload (js ''rich_text'')) of
                       Inl e \<Rightarrow> Inl e
                     | Inr s \<Rightarrow> Inr [s])
                  else Inr [])))"

text \<open>The loop over the blocks, with \<open>lines\<close> as its state.\<close>

fun renderBlocks :: "jsval list \<Rightarrow> jsstring list \<Rightarrow> error + jsstring list" where
  "renderBlocks [] lines = Inr lines"
| "renderBlocks (b # bs) lines =
     (case blockLines b of
        Inl e \<Rightarrow> Inl e
      | Inr ls \<Rightarrow> renderBlocks bs (lines @ ls))"

definition blocksToMarkdown :: "jsval list \<Rightarrow> error + jsstring" where
  "blocksToMarkdown blocks =
     (case renderBlocks blocks [] of
        Inl e \<Rightarrow> Inl e
      | Inr lines \<Rightarrow> Inr (join [0x0A, 0x0A] lines))"

subsection \<open>blocksToPlainText\<close>

text \<open>\<open>rt => rt.text?.content || ''\<close>\<close>

definition runContent :: "jsval \<Rightarrow> error + jsval" where
  "runContent rt =
     (case getProp rt (js ''text'') of
        Inl e \<Rightarrow> Inl e
      | Inr t \<Rightarrow> Inr (orElse (optProp t (js ''content'')) (JStr [])))"

text \<open>
  The lines one block pushes. The computed key \<open>b[type]\<close> converts the type to a string.
  \<open>richText.map\<close> is guarded by the truthiness of \<open>rich_text\<close> only: on a truthy
  value that is not an array, \<open>map\<close> is not a function.
\<close>

definition plainLines :: "jsval \<Rightarrow> error + jsstring list" where
  "plainLines b =
     (case getProp b (js ''type'') of
        Inl e \<Rightarrow> Inl e
      | Inr ty \<Rightarrow>
          (case toString ty of
             Inl e \<Rightarrow> Inl e
           | Inr key \<Rightarrow>
               (let blockContent = propOf b key;
                    richText = optProp blockContent (js ''rich_text'')
                in if truthy richText then
                     (case richText of
                        JArr rts \<Rightarrow>
                          (case mapE runContent rts of
                             Inl e \<Rightarrow> Inl e
                           | Inr ts \<Rightarrow>
                               (case arrayJoin [] ts of
                                  Inl e \<Rightarrow> Inl e
                                | Inr text \<Rightarrow> Inr (if text \<noteq> [] then [text] else [])))
                      | _ \<Rightarrow> Inl TypeError)
                   else Inr [])))"

fun plainBlocks :: "jsval list \<Rightarrow> jsstring list \<Rightarrow> error + jsstring list" where
  "plainBlocks [] lines = Inr lines"
| "plainBlocks (b # bs) lines =
     (case plainLines b of
        Inl e \<Rightarrow> Inl e
      | Inr ls \<Rightarrow> plainBlocks bs (lines @ ls))"

definition blocksToPlainText :: "jsval list \<Rightarrow> error + jsstring" where
  "blocksToPlainText blocks =
     (case plainBlocks blocks [] of
        Inl e \<Rightarrow> Inl e
      | Inr lines \<Rightarrow> Inr (join [0x0A] lines))"

section \<open>Vocabulary of the claims\<close>

text \<open>\<open>b.type\<close> and \<open>rt.text.content\<close>, as the tests of the repository read them.\<close>

definition blockType :: "jsval \<Rightarrow> jsval" where
  "blockType b = propOf b (js ''type'')"

definition contentOf :: "jsval \<Rightarrow> jsstring" where
  "contentOf rt =
     (case optProp (propOf rt (js ''text'')) (js ''content'') of
        JStr s \<Rightarrow> s
      | _ \<Rightarrow> [])"

text \<open>The concatenation of the \<open>content\<close> fields of a sequence of runs.\<close>

definition contents :: "jsval list \<Rightarrow> jsstring" where
  "contents rts = concat (map contentOf rts)"

text \<open>
  The record the loop over the patterns builds from a match of pattern \<open>p\<close>; only the
  link pattern has a second group.
\<close>

definition candidate :: "regex \<times> jsstring \<Rightarrow> regmatch \<Rightarrow> earliest" where
  "candidate p m =
     \<lparr>e_index = m_index m, e_length = length (m_whole m), e_content = m_group1 m,
      e_annotation = snd p,
      e_url = (if snd p = js ''link'' then m_group2 m else None)\<rparr>"

text \<open>
  Pattern number \<open>k\<close> is selected in \<open>r\<close> with match \<open>m\<close>: it matches, no pattern
  matches at a smaller start index, and no earlier pattern of the list matches at the same
  start index. \<open>scanned ps r em\<close> says that \<open>em\<close> is the selection among \<open>ps\<close>.
\<close>

definition selected :: "(regex \<times> jsstring) list \<Rightarrow> jsstring \<Rightarrow> nat \<Rightarrow> regmatch \<Rightarrow> bool" where
  "selected ps r k m \<longleftrightarrow>
     k < length ps \<and> exec (fst (ps ! k)) r = Some m \<and>
     (\<forall>j < length ps. \<forall>m'. exec (fst (ps ! j)) r = Some m' \<longrightarrow>
        m_index m < m_index m' \<or> (m_index m = m_index m' \<and> k \<le> j))"

definition scanned :: "(regex \<times> jsstring) list \<Rightarrow> jsstring \<Rightarrow> earliest option \<Rightarrow> bool" where
  "scanned ps r em \<longleftrightarrow>
     (case em of
        None \<Rightarrow> \<forall>j < length ps. exec (fst (ps ! j)) r = None
      | Some e \<Rightarrow> \<exists>k m. selected ps r k m \<and> e = candidate (ps ! k) m)"

text \<open>What the groups of a match are, by pattern.\<close>

definition wellGrouped :: "regex \<Rightarrow> regmatch \<Rightarrow> bool" where
  "wellGrouped re m \<longleftrightarrow>
     (case re of
        Delimited d \<Rightarrow> m_whole m = d @ m_group1 m @ d \<and> m_group2 m = None
      | LinkPattern \<Rightarrow>
          (\<exists>u. m_group2 m = Some u \<and> u \<noteq> [] \<and>
               m_whole m = js ''['' @ m_group1 m @ js '']('' @ u @ js '')''))"

text \<open>The run renderer succeeds on every run of \<open>rts\<close> and the joined result is \<open>s\<close>.\<close>

definition rendersTo :: "jsval list \<Rightarrow> jsstring \<Rightarrow> bool" where
  "rendersTo rts s \<longleftrightarrow> (\<exists>ts. mapE renderRun rts = Inr ts \<and> arrayJoin [] ts = Inr s)"

text \<open>Outside a fence no code line is pending.\<close>

definition fence_inv :: "fence_state \<Rightarrow> bool" where
  "fence_inv st \<longleftrightarrow> (\<not> inCodeBlock st \<longrightarrow> codeContent st = [])"

text \<open>
  The prefix \<open>blocksToMarkdown\<close> writes before the rich text of a block, by block type,
  for the types whose payload holds rich text only.
\<close>

definition marker :: "jsstring \<Rightarrow> jsstring option" where
  "marker ty =
     (if ty = js ''paragraph'' then Some []
      else if ty = js ''heading_1'' then Some (js ''# '')
      else if ty = js ''heading_2'' then Some (js ''## '')
      else if ty = js ''heading_3'' then Some (js ''### '')
      else if ty = js ''bulleted_list_item'' then Some (js ''- '')
      else if ty = js ''numbered_list_item'' then Some (js ''1. '')
      else if ty = js ''quote'' then Some (js ''> '')
      else None)"

section \<open>Basic facts\<close>

lemma startsWith_Nil [simp]: "startsWith s [] = True"
  by (simp add: startsWith_def)

lemma startsWith_Cons_Cons [simp]:
  "startsWith (c # s) (p # ps) \<longleftrightarrow> c = p \<and> startsWith s ps"
  by (simp add: startsWith_def)

lemma startsWith_Nil_Cons [simp]: "startsWith [] (p # ps) = False"
  by (simp add: startsWith_def)

lemma startsWith_append: "startsWith s p \<longleftrightarrow> (\<exists>r. s = p @ r)"
  unfolding startsWith_def by (metis append_eq_conv_conj)

lemma type_richBlock [simp]: "blockType (richBlock ty rts) = JStr ty"
  by (simp add: richBlock_def blockType_def)

lemma type_todoBlock [simp]: "blockType (todoBlock rts c) = JStr (js ''to_do'')"
  by (simp add: todoBlock_def blockType_def)

lemma type_dividerBlock [simp]: "blockType dividerBlock = JStr (js ''divider'')"
  by (simp add: dividerBlock_def blockType_def)

lemma startsWith_drop: "startsWith m p \<Longrightarrow> p @ drop (length p) m = m"
  unfolding startsWith_def by (metis append_take_drop_id)

lemma mapE_append:
  "mapE f xs = Inr ys \<Longrightarrow> mapE f xs' = Inr ys' \<Longrightarrow> mapE f (xs @ xs') = Inr (ys @ ys')"
  by (induction xs arbitrary: ys) (auto split: sum.splits)

lemma elemStrings_append:
  "elemStrings xs = Inr a \<Longrightarrow> elemStrings ys = Inr b \<Longrightarrow> elemStrings (xs @ ys) = Inr (a @ b)"
  by (induction xs arbitrary: a) (auto split: sum.splits if_splits)

lemma join_empty_sep: "join [] xs = concat xs"
  by (induction "[] :: jsstring" xs rule: join.induct) simp_all

lemma arrayJoin_append:
  "arrayJoin [] xs = Inr a \<Longrightarrow> arrayJoin [] ys = Inr b \<Longrightarrow>
   arrayJoin [] (xs @ ys) = Inr (a @ b)"
  by (auto simp: arrayJoin_def join_empty_sep elemStrings_append split: sum.splits)

lemma arrayJoin_single: "arrayJoin [] [JStr s] = Inr s"
  by (simp add: arrayJoin_def)

lemma splitOn_absent: "sep \<notin> set s \<Longrightarrow> splitOn sep cur s = [cur @ s]"
  by (induction s arbitrary: cur) auto

lemma splitLines_single: "0x0A \<notin> set m \<Longrightarrow> splitLines m = [m]"
  by (simp add: splitLines_def splitOn_absent)

section \<open>The inline scanner: which construct is selected\<close>

lemma consider_pattern_cases:
  "consider_pattern r em p =
     (case exec (fst p) r of
        None \<Rightarrow> em
      | Some m \<Rightarrow>
          (case em of
             None \<Rightarrow> Some (candidate p m)
           | Some e \<Rightarrow> if m_index m < e_index e then Some (candidate p m) else em))"
  by (cases p) (simp add: consider_pattern_def candidate_def split: option.splits)

lemma selected_snoc_keep:
  assumes "selected ps r k m"
    and "\<And>m'. exec (fst p) r = Some m' \<Longrightarrow> m_index m \<le> m_index m'"
  shows "selected (ps @ [p]) r k m"
  using assms unfolding selected_def
  by (auto simp: nth_append less_Suc_eq le_less)

lemma selected_snoc_new:
  assumes "exec (fst p) r = Some m"
    and "\<And>j m'. j < length ps \<Longrightarrow> exec (fst (ps ! j)) r = Some m' \<Longrightarrow> m_index m < m_index m'"
  shows "selected (ps @ [p]) r (length ps) m"
  using assms unfolding selected_def
  by (auto simp: nth_append less_Suc_eq)

lemma scanned_SomeI:
  "selected ps r k m \<Longrightarrow> e = candidate (ps ! k) m \<Longrightarrow> scanned ps r (Some e)"
  by (auto simp: scanned_def)

lemma scanned_step:
  assumes "scanned ps r em"
  shows "scanned (ps @ [p]) r (consider_pattern r em p)"
proof (cases "exec (fst p) r")
  case None
  show ?thesis
  proof (cases em)
    case N: None
    with None assms show ?thesis
      by (auto simp: scanned_def consider_pattern_cases nth_append less_Suc_eq)
  next
    case (Some e)
    with assms obtain k m where km: "selected ps r k m" "e = candidate (ps ! k) m"
      by (auto simp: scanned_def)
    have "selected (ps @ [p]) r k m"
      using km(1) None by (intro selected_snoc_keep) simp_all
    moreover have "k < length ps" using km(1) by (simp add: selected_def)
    ultimately have "scanned (ps @ [p]) r (Some e)"
      using km(2) by (auto intro!: scanned_SomeI [of _ _ k m] simp: nth_append)
    then show ?thesis
      using None Some by (simp add: consider_pattern_cases)
  qed
next
  case (Some m)
  show ?thesis
  proof (cases em)
    case None
    with assms have "\<forall>j<length ps. exec (fst (ps ! j)) r = None"
      by (simp add: scanned_def)
    then have "selected (ps @ [p]) r (length ps) m"
      using Some by (intro selected_snoc_new) simp_all
    then have "scanned (ps @ [p]) r (Some (candidate p m))"
      by (rule scanned_SomeI) simp
    then show ?thesis
      using Some None by (simp add: consider_pattern_cases)
  next
    case E: (Some e)
    with assms obtain k m0 where km: "selected ps r k m0" "e = candidate (ps ! k) m0"
      by (auto simp: scanned_def)
    have k: "k < length ps" using km(1) by (simp add: selected_def)
    have ei: "e_index e = m_index m0" using km(2) by (simp add: candidate_def)
    show ?thesis
    proof (cases "m_index m < e_index e")
      case True
      have "selected (ps @ [p]) r (length ps) m"
      proof (rule selected_snoc_new [OF Some])
        fix j m' assume "j < length ps" "exec (fst (ps ! j)) r = Some m'"
        with km(1) have "m_index m0 \<le> m_index m'"
          unfolding selected_def by (metis less_or_eq_imp_le)
        with True ei show "m_index m < m_index m'" by simp
      qed
      then have "scanned (ps @ [p]) r (Some (candidate p m))"
        by (rule scanned_SomeI) simp
      then show ?thesis
        using Some E True by (simp add: consider_pattern_cases)
    next
      case False
      have "selected (ps @ [p]) r k m0"
        using km(1) Some False ei by (intro selected_snoc_keep) simp_all
      then have "scanned (ps @ [p]) r (Some e)"
        using km(2) k by (auto intro!: scanned_SomeI [of _ _ k m0] simp: nth_append)
      then show ?thesis
        using Some E False by (simp add: consider_pattern_cases)
    qed
  qed
qed

lemma scanned_scanPatterns:
  "scanned qs r em \<Longrightarrow> scanned (qs @ ps) r (scanPatterns ps r em)"
proof (induction ps arbitrary: qs em)
  case Nil
  then show ?case by simp
next
  case (Cons p ps)
  from Cons.IH [OF scanned_step [OF Cons.prems, of p]] show ?case by simp
qed

lemma scanned_findEarliest: "scanned patterns r (findEarliest r)"
  using scanned_scanPatterns [of "[]" r None patterns]
  by (simp add: findEarliest_def scanned_def)

lemma findEarliest_candidate:
  assumes "findEarliest r = Some e"
  shows "\<exists>p m. p \<in> set patterns \<and> exec (fst p) r = Some m \<and> e = candidate p m"
proof -
  from scanned_findEarliest [of r] assms obtain k m
    where "selected patterns r k m" "e = candidate (patterns ! k) m"
    by (auto simp: scanned_def)
  then have "patterns ! k \<in> set patterns \<and> exec (fst (patterns ! k)) r = Some m \<and>
             e = candidate (patterns ! k) m"
    by (simp add: selected_def)
  then show ?thesis by blast
qed

text \<open>
  Claim C5. In each turn of the scan, \<open>findEarliest\<close> is applied to the unconsumed
  suffix \<open>r\<close>. It finds nothing exactly when none of the five patterns matches in \<open>r\<close>;
  otherwise it returns the match of a pattern \<open>k\<close> such that every pattern that matches
  starts later, or starts at the same index and stands at or after \<open>k\<close> in the order
  bold, italic, strikethrough, code, link. On \<open>**bold**\<close> the result is a single run with
  content \<open>bold\<close> annotated bold.
\<close>

theorem findEarliest_selects:
  "(findEarliest r = None \<longrightarrow> (\<forall>j < length patterns. exec (fst (patterns ! j)) r = None)) \<and>
   (\<forall>e. findEarliest r = Some e \<longrightarrow>
      (\<exists>k m. selected patterns r k m \<and> e = candidate (patterns ! k) m)) \<and>
   parseInlineFormatting (js ''**bold**'') =
     [JObj [(js ''type'', JStr (js ''text'')),
            (js ''text'', JObj [(js ''content'', JStr (js ''bold'')), (js ''link'', JNull)]),
            (js ''annotations'', JObj [(js ''bold'', JBool True)])]]"
proof (intro conjI)
  show "findEarliest r = None \<longrightarrow> (\<forall>j < length patterns. exec (fst (patterns ! j)) r = None)"
    using scanned_findEarliest [of r] by (auto simp: scanned_def)
  show "\<forall>e. findEarliest r = Some e \<longrightarrow>
      (\<exists>k m. selected patterns r k m \<and> e = candidate (patterns ! k) m)"
    using scanned_findEarliest [of r] by (auto simp: scanned_def)
  show "parseInlineFormatting (js ''**bold**'') =
     [JObj [(js ''type'', JStr (js ''text'')),
            (js ''text'', JObj [(js ''content'', JStr (js ''bold'')), (js ''link'', JNull)]),
            (js ''annotations'', JObj [(js ''bold'', JBool True)])]]"
    by code_simp
qed

text \<open>
  On \<open>**bold**\<close> the italic pattern matches at index 0 as well (\<open>**bold*\<close>, with group
  \<open>*bold\<close>); the bold match is the one selected.
\<close>

theorem findEarliest_selects_witness:
  "(\<exists>k m. selected patterns (js ''**bold**'') k m \<and>
      \<lparr>e_index = 0, e_length = 8, e_content = js ''bold'', e_annotation = js ''bold'',
       e_url = None\<rparr> = candidate (patterns ! k) m) \<and>
   exec (Delimited (js ''*'')) (js ''**bold**'') =
     Some \<lparr>m_index = 0, m_whole = js ''**bold*'', m_group1 = js ''*bold'', m_group2 = None\<rparr>"
proof -
  have 1: "findEarliest (js ''**bold**'') =
      Some \<lparr>e_index = 0, e_length = 8, e_content = js ''bold'', e_annotation = js ''bold'',
            e_url = None\<rparr>"
    by code_simp
  have 2: "exec (Delimited (js ''*'')) (js ''**bold**'') =
     Some \<lparr>m_index = 0, m_whole = js ''**bold*'', m_group1 = js ''*bold'', m_group2 = None\<rparr>"
    by code_simp
  from findEarliest_selects [of "js ''**bold**''"] 1
  have "\<exists>k m. selected patterns (js ''**bold**'') k m \<and>
      \<lparr>e_index = 0, e_length = 8, e_content = js ''bold'', e_annotation = js ''bold'',
       e_url = None\<rparr> = candidate (patterns ! k) m"
    by blast
  then show ?thesis using 2 by (rule conjI)
qed

section \<open>The inline scanner: what a match covers\<close>

lemma lazyDot_shape:
  "lazyDot d acc s = Some g \<Longrightarrow> \<exists>t rest. g = acc @ t \<and> s = t @ d @ rest"
proof (induction d acc s rule: lazyDot.induct)
  case (1 d acc)
  then show ?case by (auto simp: startsWith_def split: if_splits)
next
  case (2 d acc c r)
  show ?case
  proof (cases "startsWith (c # r) d")
    case True
    then obtain rest where "c # r = d @ rest" by (auto simp: startsWith_append)
    moreover from 2(2) True have "g = acc" by simp
    ultimately have "g = acc @ [] \<and> c # r = [] @ d @ rest" by simp
    then show ?thesis by blast
  next
    case False
    with 2 obtain t rest where "g = (acc @ [c]) @ t" "r = t @ d @ rest"
      by (auto split: if_splits)
    then have "g = acc @ (c # t) \<and> c # r = (c # t) @ d @ rest" by simp
    then show ?thesis by blast
  qed
qed

lemma delimitedAt_shape:
  assumes "delimitedAt d s = Some g"
  shows "\<exists>rest. s = d @ g @ d @ rest"
proof -
  from assms obtain r0 where s: "s = d @ r0"
    by (auto simp: delimitedAt_def startsWith_append split: if_splits)
  with assms obtain c r where r0: "r0 = c # r" and l: "lazyDot d [c] r = Some g"
    by (auto simp: delimitedAt_def split: if_splits list.splits)
  from lazyDot_shape [OF l] obtain t rest where "g = [c] @ t" "r = t @ d @ rest" by blast
  with s r0 show ?thesis by simp
qed

lemma takeWhile_dropWhile_startsWith:
  "startsWith (dropWhile P r) q \<Longrightarrow> \<exists>rest. r = takeWhile P r @ q @ rest"
  by (metis startsWith_append takeWhile_dropWhile_id)

lemma linkAt_shape:
  assumes "linkAt s = Some (t, u)"
  shows "\<exists>rest. s = js ''['' @ t @ js '']('' @ u @ js '')'' @ rest \<and> t \<noteq> [] \<and> u \<noteq> []"
proof -
  from assms obtain c r where s: "s = c # r" and c: "c = of_char CHR ''[''"
    by (auto simp: linkAt_def split: list.splits if_splits)
  let ?r1 = "dropWhile (\<lambda>x. x \<noteq> of_char CHR '']'') r"
  let ?r2 = "drop 2 ?r1"
  let ?r3 = "dropWhile (\<lambda>x. x \<noteq> of_char CHR '')'') ?r2"
  from assms s c have t: "t = takeWhile (\<lambda>x. x \<noteq> of_char CHR '']'') r" "t \<noteq> []"
    and p1: "startsWith ?r1 (js '']('')"
    and u: "u = takeWhile (\<lambda>x. x \<noteq> of_char CHR '')'') ?r2" "u \<noteq> []"
    and p2: "startsWith ?r3 (js '')'')"
    by (auto simp: linkAt_def Let_def split: if_splits)
  from takeWhile_dropWhile_startsWith [OF p1] obtain rest1
    where r: "r = t @ js '']('' @ rest1" using t(1) by blast
  then have "?r1 = js '']('' @ rest1"
    by (metis t(1) same_append_eq takeWhile_dropWhile_id)
  then have r2: "?r2 = rest1" by simp
  from takeWhile_dropWhile_startsWith [OF p2] obtain rest2
    where "?r2 = u @ js '')'' @ rest2" using u(1) by blast
  with r2 r s c t(2) u(2) show ?thesis by simp
qed

lemma matchAt_shape:
  "matchAt re i s = Some m \<Longrightarrow> m_index m = i \<and> (\<exists>rest. s = m_whole m @ rest)"
  by (auto simp: matchAt_def split: regex.splits option.splits
      dest!: delimitedAt_shape linkAt_shape)

lemma searchFrom_shape:
  "searchFrom re i s = Some m \<Longrightarrow>
   \<exists>pre rest. s = pre @ m_whole m @ rest \<and> m_index m = i + length pre"
proof (induction re i s rule: searchFrom.induct)
  case (1 re i)
  from matchAt_shape [of re i "[]" m] 1 show ?case by auto
next
  case (2 re i c r)
  show ?case
  proof (cases "matchAt re i (c # r)")
    case None
    with 2 obtain pre rest where "r = pre @ m_whole m @ rest" "m_index m = Suc i + length pre"
      by auto
    then have "c # r = (c # pre) @ m_whole m @ rest \<and> m_index m = i + length (c # pre)"
      by simp
    then show ?thesis by blast
  next
    case (Some m')
    with 2 have "m' = m" by simp
    with matchAt_shape [OF Some] have "m_index m = i + length ([] :: jsstring) \<and> (\<exists>rest. c # r = [] @ m_whole m @ rest)"
      by simp
    then show ?thesis by blast
  qed
qed

lemma exec_shape:
  assumes "exec re s = Some m"
  shows "\<exists>pre rest. s = pre @ m_whole m @ rest \<and> m_index m = length pre"
  using searchFrom_shape [of re 0 s m] assms by (auto simp: exec_def)

lemma matchAt_groups: "matchAt re i s = Some m \<Longrightarrow> wellGrouped re m"
  by (auto simp: matchAt_def wellGrouped_def split: regex.splits option.splits
      dest: linkAt_shape)

lemma searchFrom_groups: "searchFrom re i s = Some m \<Longrightarrow> wellGrouped re m"
  by (induction re i s rule: searchFrom.induct)
     (auto split: option.splits dest: matchAt_groups)

lemma exec_groups: "exec re s = Some m \<Longrightarrow> wellGrouped re m"
  by (simp add: exec_def searchFrom_groups)

section \<open>Rendering the runs of the scanner\<close>

lemma renderRun_plainRun: "renderRun (plainRun s) = Inr (JStr s)"
  by (simp add: renderRun_def plainRun_def getProp_def optProp_def orElse_def template_def)

lemma renderRun_formatted:
  assumes "p \<in> set patterns" "wellGrouped (fst p) m"
  shows "renderRun (formattedRun (candidate p m)) = Inr (JStr (m_whole m))"
proof -
  from assms(1) consider
      "p = (Delimited (js ''**''), js ''bold'')"
    | "p = (Delimited (js ''*''), js ''italic'')"
    | "p = (Delimited (js ''~~''), js ''strikethrough'')"
    | "p = (Delimited [0x60], js ''code'')"
    | "p = (LinkPattern, js ''link'')"
    by (auto simp: patterns_def)
  then show ?thesis
  proof cases
    case 1
    with assms(2) show ?thesis
      by (simp add: wellGrouped_def candidate_def formattedRun_def renderRun_def getProp_def
          optProp_def orElse_def template_def)
  next
    case 2
    with assms(2) show ?thesis
      by (simp add: wellGrouped_def candidate_def formattedRun_def renderRun_def getProp_def
          optProp_def orElse_def template_def)
  next
    case 3
    with assms(2) show ?thesis
      by (simp add: wellGrouped_def candidate_def formattedRun_def renderRun_def getProp_def
          optProp_def orElse_def template_def)
  next
    case 4
    with assms(2) show ?thesis
      by (simp add: wellGrouped_def candidate_def formattedRun_def renderRun_def getProp_def
          optProp_def orElse_def template_def)
  next
    case 5
    with assms(2) show ?thesis
      by (auto simp: wellGrouped_def candidate_def formattedRun_def renderRun_def getProp_def
          optProp_def orElse_def template_def)
  qed
qed

lemma rendersTo_Nil: "rendersTo [] []"
  by (simp add: rendersTo_def arrayJoin_def)

lemma rendersTo_snoc:
  "rendersTo rts s \<Longrightarrow> renderRun rt = Inr (JStr t) \<Longrightarrow> rendersTo (rts @ [rt]) (s @ t)"
proof -
  assume "rendersTo rts s" and rt: "renderRun rt = Inr (JStr t)"
  then obtain ts where ts: "mapE renderRun rts = Inr ts" "arrayJoin [] ts = Inr s"
    by (auto simp: rendersTo_def)
  have "mapE renderRun [rt] = Inr [JStr t]" using rt by simp
  from mapE_append [OF ts(1) this] arrayJoin_append [OF ts(2) arrayJoin_single [of t]]
  have "mapE renderRun (rts @ [rt]) = Inr (ts @ [JStr t]) \<and>
        arrayJoin [] (ts @ [JStr t]) = Inr (s @ t)"
    by simp
  then show ?thesis unfolding rendersTo_def by blast
qed

lemma findEarliest_split:
  assumes "findEarliest r = Some e"
  shows "\<exists>pre w rest. r = pre @ w @ rest \<and> e_index e = length pre \<and> e_length e = length w \<and>
           renderRun (formattedRun e) = Inr (JStr w) \<and> length (e_content e) < length w"
proof -
  from findEarliest_candidate [OF assms] obtain p m
    where p: "p \<in> set patterns" and m: "exec (fst p) r = Some m" and e: "e = candidate p m"
    by blast
  have g: "wellGrouped (fst p) m" by (rule exec_groups [OF m])
  from exec_shape [OF m] obtain pre rest
    where sp: "r = pre @ m_whole m @ rest" "m_index m = length pre"
    by blast
  have "renderRun (formattedRun e) = Inr (JStr (m_whole m))"
    unfolding e by (rule renderRun_formatted [OF p g])
  moreover have "length (e_content e) < length (m_whole m)"
    using p g by (auto simp: e candidate_def wellGrouped_def patterns_def)
  moreover have "e_index e = length pre" "e_length e = length (m_whole m)"
    using sp(2) by (simp_all add: e candidate_def)
  ultimately show ?thesis using sp(1) by blast
qed

text \<open>One turn of the loop on a match.\<close>

lemma scanInline_match:
  assumes "findEarliest (pre @ w @ rest) = Some e" "e_index e = length pre"
    "e_length e = length w" "w \<noteq> []"
  shows "scanInline (pre @ w @ rest) acc =
           scanInline rest
             ((if pre \<noteq> [] then acc @ [plainRun pre] else acc) @ [formattedRun e])"
  using assms by (subst scanInline.simps) auto

lemma scanInline_rendersTo:
  "rendersTo acc s \<Longrightarrow> rendersTo (scanInline r acc) (s @ r)"
proof (induction r arbitrary: acc s rule: length_induct)
  case (1 r)
  show ?case
  proof (cases "r = []")
    case True
    with 1 show ?thesis by (simp add: scanInline.simps)
  next
    case ne: False
    show ?thesis
    proof (cases "findEarliest r")
      case None
      with ne 1(2) show ?thesis
        by (simp add: scanInline.simps rendersTo_snoc renderRun_plainRun)
    next
      case (Some e)
      from findEarliest_split [OF Some] obtain pre w rest
        where sp: "r = pre @ w @ rest" "e_index e = length pre" "e_length e = length w"
          and w: "renderRun (formattedRun e) = Inr (JStr w)"
          and lt: "length (e_content e) < length w"
        by blast
      from lt have wne: "w \<noteq> []" by auto
      let ?acc = "(if pre \<noteq> [] then acc @ [plainRun pre] else acc) @ [formattedRun e]"
      have "rendersTo (if pre \<noteq> [] then acc @ [plainRun pre] else acc) (s @ pre)"
        using 1(2) by (auto simp: rendersTo_snoc renderRun_plainRun)
      then have "rendersTo ?acc ((s @ pre) @ w)"
        by (rule rendersTo_snoc [OF _ w])
      moreover have "length rest < length r" using sp(1) wne by simp
      ultimately have "rendersTo (scanInline rest ?acc) (((s @ pre) @ w) @ rest)"
        using 1(1) by blast
      moreover have "scanInline r acc = scanInline rest ?acc"
        using scanInline_match [OF _ sp(2,3) wne] Some unfolding sp(1) by simp
      ultimately show ?thesis using sp(1) by simp
    qed
  qed
qed

text \<open>
  The run renderer inverts the scanner on every string: rendering the runs of \<open>s\<close> gives
  \<open>s\<close> back.
\<close>

lemma richTextToMarkdown_parseInlineFormatting:
  "richTextToMarkdown (JArr (parseInlineFormatting s)) = Inr s"
proof -
  have "rendersTo (parseInlineFormatting s) s"
  proof (cases "scanInline s [] = []")
    case True
    from scanInline_rendersTo [OF rendersTo_Nil, of s] True have "rendersTo [] s" by simp
    then have "s = []" by (simp add: rendersTo_def arrayJoin_def)
    then show ?thesis
      using rendersTo_snoc [OF rendersTo_Nil renderRun_plainRun [of "[]"]] True
      by (simp add: parseInlineFormatting_def)
  next
    case False
    then show ?thesis
      using scanInline_rendersTo [OF rendersTo_Nil, of s]
      by (simp add: parseInlineFormatting_def)
  qed
  then show ?thesis
    by (auto simp: rendersTo_def richTextToMarkdown_def)
qed

section \<open>The inline scanner: the contents of the runs\<close>

lemma contents_Nil: "contents [] = []"
  by (simp add: contents_def)

lemma contentOf_plainRun: "contentOf (plainRun s) = s"
  by (simp add: contentOf_def plainRun_def optProp_def)

lemma contentOf_formattedRun: "contentOf (formattedRun e) = e_content e"
  by (simp add: contentOf_def formattedRun_def optProp_def)

lemma scanInline_no_match:
  "findEarliest r = None \<Longrightarrow> contents (scanInline r acc) = contents acc @ r"
  by (simp add: scanInline.simps contents_def contentOf_plainRun)

lemma scanInline_contents_le:
  "length (contents (scanInline r acc)) \<le> length (contents acc) + length r"
proof (induction r arbitrary: acc rule: length_induct)
  case (1 r)
  show ?case
  proof (cases "findEarliest r")
    case None
    then show ?thesis by (simp add: scanInline_no_match)
  next
    case (Some e)
    from findEarliest_split [OF Some] obtain pre w rest
      where sp: "r = pre @ w @ rest" "e_index e = length pre" "e_length e = length w"
        and lt: "length (e_content e) < length w"
      by blast
    from lt have wne: "w \<noteq> []" by auto
    let ?acc = "(if pre \<noteq> [] then acc @ [plainRun pre] else acc) @ [formattedRun e]"
    have eq: "scanInline r acc = scanInline rest ?acc"
      using scanInline_match [OF _ sp(2,3) wne] Some unfolding sp(1) by simp
    have "length rest < length r" using sp(1) wne by simp
    then have "length (contents (scanInline rest ?acc)) \<le> length (contents ?acc) + length rest"
      using 1 by blast
    moreover have "length (contents ?acc) = length (contents acc) + length pre + length (e_content e)"
      by (simp add: contents_def contentOf_plainRun contentOf_formattedRun)
    ultimately show ?thesis using eq lt sp(1) by simp
  qed
qed

lemma scanInline_contents_less:
  assumes "findEarliest r = Some e"
  shows "length (contents (scanInline r acc)) < length (contents acc) + length r"
proof -
  from findEarliest_split [OF assms] obtain pre w rest
    where sp: "r = pre @ w @ rest" "e_index e = length pre" "e_length e = length w"
      and lt: "length (e_content e) < length w"
    by blast
  from lt have wne: "w \<noteq> []" by auto
  let ?acc = "(if pre \<noteq> [] then acc @ [plainRun pre] else acc) @ [formattedRun e]"
  have eq: "scanInline r acc = scanInline rest ?acc"
    using scanInline_match [OF _ sp(2,3) wne] assms unfolding sp(1) by simp
  have "length (contents (scanInline rest ?acc)) \<le> length (contents ?acc) + length rest"
    by (rule scanInline_contents_le)
  moreover have "length (contents ?acc) = length (contents acc) + length pre + length (e_content e)"
    by (simp add: contents_def contentOf_plainRun contentOf_formattedRun)
  ultimately show ?thesis using eq lt sp(1) by simp
qed

lemma parseInlineFormatting_scanInline:
  "contents (parseInlineFormatting s) = contents (scanInline s [])"
proof (cases "scanInline s [] = []")
  case True
  from scanInline_rendersTo [OF rendersTo_Nil, of s] True have "rendersTo [] s" by simp
  then have "s = []" by (simp add: rendersTo_def arrayJoin_def)
  then show ?thesis
    using True by (simp add: parseInlineFormatting_def contents_def contentOf_plainRun)
next
  case False
  then show ?thesis by (simp add: parseInlineFormatting_def)
qed

text \<open>
  Claim C1 fails as stated: the delimiters of a recognised construct (and the target of a
  link) are in no run's content. On \<open>**bold**\<close> the contents concatenate to \<open>bold\<close>.
\<close>

theorem content_preservation_counterexample:
  "contents (parseInlineFormatting (js ''**bold**'')) \<noteq> js ''**bold**''"
  by code_simp

text \<open>
  Claim C1, amended. Concatenating the contents of the runs of \<open>s\<close> gives \<open>s\<close> when no
  construct is recognised in \<open>s\<close>; when one is, the concatenation is strictly shorter than
  \<open>s\<close>, and what reconstructs \<open>s\<close> exactly is the rendering of the runs, each content
  wrapped in its markup again.
\<close>

theorem content_preservation_amended:
  "(findEarliest s = None \<longrightarrow> contents (parseInlineFormatting s) = s) \<and>
   (findEarliest s \<noteq> None \<longrightarrow> length (contents (parseInlineFormatting s)) < length s) \<and>
   richTextToMarkdown (JArr (parseInlineFormatting s)) = Inr s"
proof (intro conjI impI)
  assume "findEarliest s = None"
  then show "contents (parseInlineFormatting s) = s"
    using scanInline_no_match [of s "[]"]
    by (simp add: parseInlineFormatting_scanInline contents_Nil)
next
  assume "findEarliest s \<noteq> None"
  then obtain e where "findEarliest s = Some e" by auto
  from scanInline_contents_less [OF this, of "[]"]
  show "length (contents (parseInlineFormatting s)) < length s"
    by (simp add: parseInlineFormatting_scanInline contents_Nil)
next
  show "richTextToMarkdown (JArr (parseInlineFormatting s)) = Inr s"
    by (rule richTextToMarkdown_parseInlineFormatting)
qed

theorem content_preservation_amended_witness:
  "contents (parseInlineFormatting (js ''plain text'')) = js ''plain text'' \<and>
   length (contents (parseInlineFormatting (js ''a **b**''))) < length (js ''a **b**'') \<and>
   richTextToMarkdown (JArr (parseInlineFormatting (js ''a **b**''))) = Inr (js ''a **b**'')"
proof -
  have 1: "findEarliest (js ''plain text'') = None" by code_simp
  have 2: "findEarliest (js ''a **b**'') \<noteq> None" by code_simp
  show ?thesis
    using content_preservation_amended [of "js ''plain text''"]
      content_preservation_amended [of "js ''a **b**''"] 1 2
    by blast
qed

text \<open>
  Claim C10. On every string \<open>parseInlineFormatting\<close> returns at least one run, and on
  the empty string exactly one run, whose content is the empty string and which has
  neither an \<open>annotations\<close> nor a \<open>link\<close> field.
\<close>

theorem parseInlineFormatting_nonempty:
  "parseInlineFormatting s \<noteq> [] \<and>
   parseInlineFormatting [] =
     [JObj [(js ''type'', JStr (js ''text'')),
            (js ''text'', JObj [(js ''content'', JStr [])])]]"
  by (simp add: parseInlineFormatting_def Let_def scanInline.simps plainRun_def)

theorem parseInlineFormatting_nonempty_witness:
  "parseInlineFormatting (js ''a *b*'') \<noteq> [] \<and>
   map contentOf (parseInlineFormatting []) = [[]]"
  using parseInlineFormatting_nonempty [of "js ''a *b*''"]
  by (simp add: contentOf_def optProp_def)

section \<open>The line classifier\<close>

lemma heading_forward:
  "(startsWith (trim line) (js ''### '') \<longrightarrow>
      lineToBlock line =
        Some (richBlock (js ''heading_3'') (parseInlineFormatting (drop 4 (trim line))))) \<and>
   (startsWith (trim line) (js ''## '') \<longrightarrow>
      lineToBlock line =
        Some (richBlock (js ''heading_2'') (parseInlineFormatting (drop 3 (trim line))))) \<and>
   (startsWith (trim line) (js ''# '') \<longrightarrow>
      lineToBlock line =
        Some (richBlock (js ''heading_1'') (parseInlineFormatting (drop 2 (trim line)))))"
  by (auto simp: lineToBlock_def Let_def startsWith_append)

lemma heading_only:
  "lineToBlock line = Some b \<Longrightarrow>
     (blockType b = JStr (js ''heading_3'') \<longleftrightarrow> startsWith (trim line) (js ''### '')) \<and>
     (blockType b = JStr (js ''heading_2'') \<longleftrightarrow> startsWith (trim line) (js ''## '')) \<and>
     (blockType b = JStr (js ''heading_1'') \<longleftrightarrow> startsWith (trim line) (js ''# ''))"
  by (auto simp: lineToBlock_def Let_def startsWith_append split: if_splits option.splits)

text \<open>
  Claim C7. A trimmed line that begins with \<open>### \<close> becomes a \<open>heading_3\<close> block, one
  that begins with \<open>## \<close> a \<open>heading_2\<close> block and one that begins with \<open># \<close> a
  \<open>heading_1\<close> block, each over the text after the marker; and a block of a heading
  type comes from a line with exactly that marker, so that a line with more hashes is
  never given a lower level. (The markers end with a space, so the tests do not overlap,
  whatever their order.)
\<close>

theorem lineToBlock_headings:
  "(startsWith (trim line) (js ''### '') \<longrightarrow>
      lineToBlock line =
        Some (richBlock (js ''heading_3'') (parseInlineFormatting (drop 4 (trim line))))) \<and>
   (startsWith (trim line) (js ''## '') \<longrightarrow>
      lineToBlock line =
        Some (richBlock (js ''heading_2'') (parseInlineFormatting (drop 3 (trim line))))) \<and>
   (startsWith (trim line) (js ''# '') \<longrightarrow>
      lineToBlock line =
        Some (richBlock (js ''heading_1'') (parseInlineFormatting (drop 2 (trim line))))) \<and>
   (\<forall>b. lineToBlock line = Some b \<longrightarrow>
      (blockType b = JStr (js ''heading_3'') \<longleftrightarrow> startsWith (trim line) (js ''### '')) \<and>
      (blockType b = JStr (js ''heading_2'') \<longleftrightarrow> startsWith (trim line) (js ''## '')) \<and>
      (blockType b = JStr (js ''heading_1'') \<longleftrightarrow> startsWith (trim line) (js ''# '')))"
  using heading_forward [of line] heading_only [of line] by blast

theorem lineToBlock_headings_witness:
  "lineToBlock (js ''  ### H'') =
     Some (richBlock (js ''heading_3'') (parseInlineFormatting (js ''H''))) \<and>
   lineToBlock (js ''## H'') =
     Some (richBlock (js ''heading_2'') (parseInlineFormatting (js ''H''))) \<and>
   lineToBlock (js ''# H'') =
     Some (richBlock (js ''heading_1'') (parseInlineFormatting (js ''H'')))"
proof -
  have t: "trim (js ''  ### H'') = js ''### H''" "trim (js ''## H'') = js ''## H''"
    "trim (js ''# H'') = js ''# H''"
    by (simp_all add: trim_def isWhiteSpace_def isLineTerminator_def)
  show ?thesis
    using lineToBlock_headings [of "js ''  ### H''"] lineToBlock_headings [of "js ''## H''"]
      lineToBlock_headings [of "js ''# H''"]
    unfolding t by simp
qed

lemma todo_forward:
  "(startsWith (trim line) (js ''- [ ] '') \<longrightarrow>
      lineToBlock line = Some (todoBlock (parseInlineFormatting (drop 6 (trim line))) False)) \<and>
   (startsWith (trim line) (js ''- [x] '') \<longrightarrow>
      lineToBlock line = Some (todoBlock (parseInlineFormatting (drop 6 (trim line))) True))"
  by (auto simp: lineToBlock_def Let_def startsWith_append split: if_splits option.splits)

lemma todoBlock_fields:
  "blockType (todoBlock rts c) = JStr (js ''to_do'') \<and>
   blockType (todoBlock rts c) \<noteq> JStr (js ''bulleted_list_item'') \<and>
   propOf (propOf (todoBlock rts c) (js ''to_do'')) (js ''checked'') = JBool c \<and>
   propOf (propOf (todoBlock rts c) (js ''to_do'')) (js ''rich_text'') = JArr rts"
  by (simp add: todoBlock_def blockType_def)

text \<open>
  Claim C8. A trimmed line that begins with \<open>- [ ] \<close> gives a block \<open>b\<close> whose \<open>type\<close>
  is \<open>to_do\<close>, not \<open>bulleted_list_item\<close> although the line begins with \<open>- \<close>, whose
  \<open>to_do.checked\<close> is \<open>false\<close> and whose \<open>to_do.rich_text\<close> holds the runs of the text
  after the marker; a trimmed line that begins with \<open>- [x] \<close> gives the same with
  \<open>to_do.checked\<close> \<open>true\<close>.
\<close>

theorem lineToBlock_todo:
  "(startsWith (trim line) (js ''- [ ] '') \<longrightarrow>
      (\<exists>b. lineToBlock line = Some b \<and>
           blockType b = JStr (js ''to_do'') \<and>
           blockType b \<noteq> JStr (js ''bulleted_list_item'') \<and>
           propOf (propOf b (js ''to_do'')) (js ''checked'') = JBool False \<and>
           propOf (propOf b (js ''to_do'')) (js ''rich_text'') =
             JArr (parseInlineFormatting (drop 6 (trim line))))) \<and>
   (startsWith (trim line) (js ''- [x] '') \<longrightarrow>
      (\<exists>b. lineToBlock line = Some b \<and>
           blockType b = JStr (js ''to_do'') \<and>
           blockType b \<noteq> JStr (js ''bulleted_list_item'') \<and>
           propOf (propOf b (js ''to_do'')) (js ''checked'') = JBool True \<and>
           propOf (propOf b (js ''to_do'')) (js ''rich_text'') =
             JArr (parseInlineFormatting (drop 6 (trim line)))))"
proof (intro conjI impI)
  assume "startsWith (trim line) (js ''- [ ] '')"
  with todo_forward [of line]
  have "lineToBlock line = Some (todoBlock (parseInlineFormatting (drop 6 (trim line))) False)"
    by blast
  with todoBlock_fields [of "parseInlineFormatting (drop 6 (trim line))" False]
  show "\<exists>b. lineToBlock line = Some b \<and>
           blockType b = JStr (js ''to_do'') \<and>
           blockType b \<noteq> JStr (js ''bulleted_list_item'') \<and>
           propOf (propOf b (js ''to_do'')) (js ''checked'') = JBool False \<and>
           propOf (propOf b (js ''to_do'')) (js ''rich_text'') =
             JArr (parseInlineFormatting (drop 6 (trim line)))"
    by blast
next
  assume "startsWith (trim line) (js ''- [x] '')"
  with todo_forward [of line]
  have "lineToBlock line = Some (todoBlock (parseInlineFormatting (drop 6 (trim line))) True)"
    by blast
  with todoBlock_fields [of "parseInlineFormatting (drop 6 (trim line))" True]
  show "\<exists>b. lineToBlock line = Some b \<and>
           blockType b = JStr (js ''to_do'') \<and>
           blockType b \<noteq> JStr (js ''bulleted_list_item'') \<and>
           propOf (propOf b (js ''to_do'')) (js ''checked'') = JBool True \<and>
           propOf (propOf b (js ''to_do'')) (js ''rich_text'') =
             JArr (parseInlineFormatting (drop 6 (trim line)))"
    by blast
qed

theorem lineToBlock_todo_witness:
  "(\<exists>b. lineToBlock (js ''- [ ] x'') = Some b \<and>
        blockType b = JStr (js ''to_do'') \<and>
        propOf (propOf b (js ''to_do'')) (js ''checked'') = JBool False \<and>
        propOf (propOf b (js ''to_do'')) (js ''rich_text'') =
          JArr (parseInlineFormatting (js ''x''))) \<and>
   (\<exists>b. lineToBlock (js '' - [x] x'') = Some b \<and>
        blockType b = JStr (js ''to_do'') \<and>
        propOf (propOf b (js ''to_do'')) (js ''checked'') = JBool True \<and>
        propOf (propOf b (js ''to_do'')) (js ''rich_text'') =
          JArr (parseInlineFormatting (js ''x'')))"
proof -
  have t: "trim (js ''- [ ] x'') = js ''- [ ] x''" "trim (js '' - [x] x'') = js ''- [x] x''"
    by (simp_all add: trim_def isWhiteSpace_def isLineTerminator_def)
  have s: "startsWith (js ''- [ ] x'') (js ''- [ ] '')" "startsWith (js ''- [x] x'') (js ''- [x] '')"
    "drop 6 (js ''- [ ] x'') = js ''x''" "drop 6 (js ''- [x] x'') = js ''x''"
    by simp_all
  note a = lineToBlock_todo [of "js ''- [ ] x''", THEN conjunct1, rule_format, unfolded t,
      OF s(1), unfolded s(3)]
  note b = lineToBlock_todo [of "js '' - [x] x''", THEN conjunct2, rule_format, unfolded t,
      OF s(2), unfolded s(4)]
  from a b show ?thesis by blast
qed

section \<open>The fence splitter\<close>

lemma fence_inv_step: "fence_inv st \<Longrightarrow> fence_inv (fence_step st line)"
  by (simp add: fence_inv_def fence_step_def Let_def)

lemma fence_inv_foldl: "fence_inv st \<Longrightarrow> fence_inv (foldl fence_step st ls)"
  by (induction ls arbitrary: st) (simp_all add: fence_inv_step)

lemma fence_inv_init: "fence_inv fence_init"
  by (simp add: fence_inv_def fence_init_def)

lemma fence_step_open:
  assumes "\<not> inCodeBlock st" "codeContent st = []" "startsWith opener [0x60, 0x60, 0x60]"
  shows "inCodeBlock (fence_step st opener) \<and> codeContent (fence_step st opener) = [] \<and>
         textContent (fence_step st opener) = [] \<and>
         codeLanguage (fence_step st opener) = trim (drop 3 opener)"
  using assms by (simp add: fence_step_def Let_def)

lemma fence_body:
  assumes "inCodeBlock st" "\<forall>l\<in>set body. \<not> startsWith l [0x60, 0x60, 0x60]"
  shows "foldl fence_step st body = st\<lparr>codeContent := codeContent st @ body\<rparr>"
  using assms
proof (induction body arbitrary: st)
  case Nil
  then show ?case by simp
next
  case (Cons l body)
  have "fence_step st l = st\<lparr>codeContent := codeContent st @ [l]\<rparr>"
    using Cons.prems by (simp add: fence_step_def)
  then show ?case using Cons by simp
qed

lemma languageOr_nonempty: "languageOr l \<noteq> []"
  by (simp add: languageOr_def)

lemma partBlocks_code:
  "partBlocks \<lparr>p_content = c, p_isCode = True, p_language = Some (languageOr l)\<rparr> =
     [codeBlock c (languageOr l)]"
  by (simp add: partBlocks_def languageOr_nonempty)

lemma codeBlock_fields:
  "blockType (codeBlock c l) = JStr (js ''code'') \<and>
   propOf (propOf (codeBlock c l) (js ''code'')) (js ''language'') = JStr l \<and>
   propOf (propOf (codeBlock c l) (js ''code'')) (js ''rich_text'') = JArr [plainRun c] \<and>
   contentOf (plainRun c) = c"
  by (simp add: codeBlock_def blockType_def contentOf_def plainRun_def optProp_def)

text \<open>
  Claim C6 fails as stated: the flush after the loop is guarded by
  \<open>codeContent.length > 0\<close>, so a fence opened on the last line of the input gives no
  code block and its language is lost, where the same fence closed at once gives a code
  block with an empty body.
\<close>

theorem unterminated_fence_counterexample:
  "markdownToBlocks ([0x60, 0x60, 0x60] @ js ''js'') = [] \<and>
   markdownToBlocks ([0x60, 0x60, 0x60] @ js ''js'' @ [0x0A, 0x60, 0x60, 0x60]) =
     [codeBlock [] (js ''js'')]"
  by code_simp

text \<open>
  Claim C6, amended. When the lines of the input are \<open>pre\<close>, then an opening marker met
  outside a fence, then at least one line, none of which begins with three backticks,
  the last block of \<open>markdownToBlocks\<close> is a code block that holds exactly these lines,
  joined by line feeds, with the trimmed text after the opening marker as its language,
  or \<open>plain text\<close> when there is none: its \<open>type\<close> is \<open>code\<close>, its \<open>code.language\<close>
  that language and its \<open>code.rich_text\<close> one run whose content is the joined lines.
\<close>

theorem unterminated_fence:
  assumes "splitLines m = pre @ opener # body"
    and "\<not> inCodeBlock (foldl fence_step fence_init pre)"
    and "startsWith opener [0x60, 0x60, 0x60]"
    and "body \<noteq> []"
    and "\<forall>l\<in>set body. \<not> startsWith l [0x60, 0x60, 0x60]"
  shows "(\<exists>bs. markdownToBlocks m =
            bs @ [codeBlock (join [0x0A] body) (languageOr (trim (drop 3 opener)))]) \<and>
         blockType (last (markdownToBlocks m)) = JStr (js ''code'') \<and>
         propOf (propOf (last (markdownToBlocks m)) (js ''code'')) (js ''language'') =
           JStr (languageOr (trim (drop 3 opener))) \<and>
         (\<exists>rt. propOf (propOf (last (markdownToBlocks m)) (js ''code'')) (js ''rich_text'') =
                 JArr [rt] \<and>
               contentOf rt = join [0x0A] body)"
proof -
  define st0 where "st0 = foldl fence_step fence_init pre"
  define st1 where "st1 = fence_step st0 opener"
  have "fence_inv st0"
    unfolding st0_def by (rule fence_inv_foldl [OF fence_inv_init])
  with assms(2) have c0: "codeContent st0 = []"
    by (simp add: fence_inv_def st0_def)
  have o: "inCodeBlock st1" "codeContent st1 = []" "textContent st1 = []"
    "codeLanguage st1 = trim (drop 3 opener)"
    using fence_step_open [OF _ c0 assms(3)] assms(2) by (simp_all add: st0_def st1_def)
  have "foldl fence_step fence_init (splitLines m) = foldl fence_step st1 body"
    by (simp add: assms(1) st0_def st1_def)
  also have "\<dots> = st1\<lparr>codeContent := body\<rparr>"
    using fence_body [OF o(1) assms(5)] o(2) by simp
  finally have "parseCodeBlocks m =
      parts st1 @ [\<lparr>p_content = join [0x0A] body, p_isCode = True,
                    p_language = Some (languageOr (trim (drop 3 opener)))\<rparr>]"
    using o assms(4) by (simp add: parseCodeBlocks_def fence_finish_def)
  then have eq: "markdownToBlocks m =
      concat (map partBlocks (parts st1)) @
      [codeBlock (join [0x0A] body) (languageOr (trim (drop 3 opener)))]"
    by (simp add: markdownToBlocks_def partBlocks_code)
  then have l: "last (markdownToBlocks m) =
      codeBlock (join [0x0A] body) (languageOr (trim (drop 3 opener)))"
    by simp
  from eq have "\<exists>bs. markdownToBlocks m =
      bs @ [codeBlock (join [0x0A] body) (languageOr (trim (drop 3 opener)))]"
    by blast
  with codeBlock_fields [of "join [0x0A] body" "languageOr (trim (drop 3 opener))"]
  show ?thesis unfolding l by blast
qed

theorem unterminated_fence_witness:
  "\<exists>bs. markdownToBlocks (js ''intro'' @ [0x0A, 0x60, 0x60, 0x60] @ js ''js'' @ [0x0A] @ js ''let x'' @ [0x0A] @ js ''x++'') =
     bs @ [codeBlock (js ''let x'' @ [0x0A] @ js ''x++'') (js ''js'')]"
proof -
  let ?m = "js ''intro'' @ [0x0A, 0x60, 0x60, 0x60] @ js ''js'' @ [0x0A] @ js ''let x'' @ [0x0A] @ js ''x++''"
  have 1: "splitLines ?m = [js ''intro''] @ ([0x60, 0x60, 0x60] @ js ''js'') # [js ''let x'', js ''x++'']"
    by code_simp
  have 2: "\<not> inCodeBlock (foldl fence_step fence_init [js ''intro''])"
    by code_simp
  have 3: "startsWith ([0x60, 0x60, 0x60] @ js ''js'') [0x60, 0x60, 0x60]" by simp
  have 4: "[js ''let x'', js ''x++''] \<noteq> []" by simp
  have 5: "\<forall>l\<in>set [js ''let x'', js ''x++'']. \<not> startsWith l [0x60, 0x60, 0x60]" by simp
  have 6: "languageOr (trim (drop 3 ([0x60, 0x60, 0x60] @ js ''js''))) = js ''js''" by code_simp
  have 7: "join [0x0A] [js ''let x'', js ''x++''] = js ''let x'' @ [0x0A] @ js ''x++''" by simp
  show ?thesis
    using unterminated_fence [OF 1 2 3 4 5, THEN conjunct1] unfolding 6 7 .
qed

section \<open>The block renderer\<close>

text \<open>
  Claim C3, at the input the claim names: a record of type \<open>paragraph\<close> with no
  \<open>paragraph\<close> field. \<open>blocksToMarkdown\<close> reads \<open>rich_text\<close> of \<open>undefined\<close> and
  raises a TypeError, where \<open>blocksToPlainText\<close> (which reads it with \<open>?.\<close>) and the
  \<open>default\<close> arm of the same \<open>switch\<close> (which tests the payload first) skip the block.
\<close>

theorem blocksToMarkdown_missing_payload:
  "blocksToMarkdown [JObj [(js ''type'', JStr (js ''paragraph''))]] = Inl TypeError \<and>
   blocksToPlainText [JObj [(js ''type'', JStr (js ''paragraph''))]] = Inr [] \<and>
   blocksToMarkdown [JObj [(js ''type'', JStr (js ''callout''))]] = Inr []"
  by code_simp

text \<open>
  Claim C4, at a code block with language \<open>js\<close> and body \<open>x\<close>: the fence, the body and
  the closing fence are three entries of \<open>lines\<close>, which \<open>join('\n\n')\<close> separates by
  blank lines like whole blocks, and \<open>markdownToBlocks\<close> reads the result back as a code
  block whose body is \<open>x\<close> between two line feeds.
\<close>

theorem blocksToMarkdown_code_block:
  "blocksToMarkdown [codeBlock (js ''x'') (js ''js'')] =
     Inr ([0x60, 0x60, 0x60] @ js ''js'' @ [0x0A, 0x0A] @ js ''x'' @ [0x0A, 0x0A] @
          [0x60, 0x60, 0x60]) \<and>
   markdownToBlocks
     ([0x60, 0x60, 0x60] @ js ''js'' @ [0x0A, 0x0A] @ js ''x'' @ [0x0A, 0x0A] @
      [0x60, 0x60, 0x60]) =
     [codeBlock ([0x0A] @ js ''x'' @ [0x0A]) (js ''js'')]"
  by code_simp

section \<open>The round trip\<close>

lemma parseCodeBlocks_single:
  "0x0A \<notin> set m \<Longrightarrow> \<not> startsWith m [0x60, 0x60, 0x60] \<Longrightarrow>
   parseCodeBlocks m = [\<lparr>p_content = m, p_isCode = False, p_language = None\<rparr>]"
  by (simp add: parseCodeBlocks_def splitLines_single fence_step_def fence_init_def
      fence_finish_def)

lemma markdownToBlocks_single:
  "0x0A \<notin> set m \<Longrightarrow> \<not> startsWith m [0x60, 0x60, 0x60] \<Longrightarrow>
   markdownToBlocks m = (case lineToBlock m of None \<Rightarrow> [] | Some b \<Rightarrow> [b])"
  by (simp add: markdownToBlocks_def parseCodeBlocks_single partBlocks_def splitLines_single
      split: option.splits)

lemma blocksToMarkdown_Nil: "blocksToMarkdown [] = Inr []"
  by (simp add: blocksToMarkdown_def)

lemma blocksToMarkdown_one_line:
  "blockLines b = Inr [l] \<Longrightarrow> blocksToMarkdown [b] = Inr l"
  by (simp add: blocksToMarkdown_def)

lemma blockLines_richBlock:
  "marker ty = Some pre \<Longrightarrow>
   blockLines (richBlock ty (parseInlineFormatting c)) = Inr [pre @ c]"
  by (auto simp: marker_def blockLines_def richBlock_def richLine_def getProp_def
      richTextToMarkdown_parseInlineFormatting split: if_splits)

lemma blockLines_todoBlock:
  "blockLines (todoBlock (parseInlineFormatting c) chk) =
     Inr [js ''- ['' @ (if chk then js ''x'' else js '' '') @ js ''] '' @ c]"
  by (simp add: blockLines_def todoBlock_def getProp_def
      richTextToMarkdown_parseInlineFormatting)

lemma blockLines_dividerBlock: "blockLines dividerBlock = Inr [js ''---'']"
  by (simp add: blockLines_def dividerBlock_def getProp_def)

lemma rich_case:
  "marker ty = Some pre \<Longrightarrow> startsWith m pre \<Longrightarrow> n = length pre \<Longrightarrow>
   blockLines (richBlock ty (parseInlineFormatting (drop n m))) = Inr [m]"
  by (simp add: blockLines_richBlock startsWith_drop)

lemma todo_case:
  "startsWith m (js ''- ['' @ (if chk then js ''x'' else js '' '') @ js ''] '') \<Longrightarrow>
   blockLines (todoBlock (parseInlineFormatting (drop 6 m)) chk) = Inr [m]"
proof -
  let ?p = "js ''- ['' @ (if chk then js ''x'' else js '' '') @ js ''] ''"
  assume "startsWith m ?p"
  then have "?p @ drop (length ?p) m = m" by (rule startsWith_drop)
  moreover have "length ?p = 6" by simp
  ultimately have "?p @ drop 6 m = m" by (simp only:)
  then show ?thesis by (simp add: blockLines_todoBlock)
qed

text \<open>
  What the block of a line renders to, when the line is written the way the renderer
  writes it.
\<close>

lemma lineToBlock_renders:
  assumes t: "trim m = m"
    and star: "\<not> startsWith m (js ''* '')"
    and num: "\<forall>g. numberedMatch m = Some g \<longrightarrow> m = js ''1. '' @ g"
    and div: "m \<noteq> js ''***''" "m \<noteq> js ''___''"
  shows "case lineToBlock m of None \<Rightarrow> m = [] | Some b \<Rightarrow> blockLines b = Inr [m]"
proof -
  note d = lineToBlock_def Let_def t
  let ?h1 = "startsWith m (js ''# '')"
  let ?h2 = "startsWith m (js ''## '')"
  let ?h3 = "startsWith m (js ''### '')"
  let ?t0 = "startsWith m (js ''- [ ] '')"
  let ?t1 = "startsWith m (js ''- [x] '')"
  let ?bu = "startsWith m (js ''- '')"
  let ?nu = "numberedMatch m \<noteq> None"
  let ?qu = "startsWith m (js ''> '')"
  let ?dv = "m = js ''---''"
  consider (empty) "m = []"
    | (h1) "m \<noteq> []" ?h1
    | (h2) "m \<noteq> []" "\<not> ?h1" ?h2
    | (h3) "m \<noteq> []" "\<not> ?h1" "\<not> ?h2" ?h3
    | (t0) "m \<noteq> []" "\<not> ?h1" "\<not> ?h2" "\<not> ?h3" ?t0
    | (t1) "m \<noteq> []" "\<not> ?h1" "\<not> ?h2" "\<not> ?h3" "\<not> ?t0" ?t1
    | (bu) "m \<noteq> []" "\<not> ?h1" "\<not> ?h2" "\<not> ?h3" "\<not> ?t0" "\<not> ?t1" ?bu
    | (nu) "m \<noteq> []" "\<not> ?h1" "\<not> ?h2" "\<not> ?h3" "\<not> ?t0" "\<not> ?t1" "\<not> ?bu" ?nu
    | (qu) "m \<noteq> []" "\<not> ?h1" "\<not> ?h2" "\<not> ?h3" "\<not> ?t0" "\<not> ?t1" "\<not> ?bu" "\<not> ?nu" ?qu
    | (dv) "m \<noteq> []" "\<not> ?h1" "\<not> ?h2" "\<not> ?h3" "\<not> ?t0" "\<not> ?t1" "\<not> ?bu" "\<not> ?nu" "\<not> ?qu" ?dv
    | (pa) "m \<noteq> []" "\<not> ?h1" "\<not> ?h2" "\<not> ?h3" "\<not> ?t0" "\<not> ?t1" "\<not> ?bu" "\<not> ?nu" "\<not> ?qu" "\<not> ?dv"
    by blast
  then show ?thesis
  proof cases
    case empty
    then show ?thesis using t by (simp add: lineToBlock_def)
  next
    case h1
    then have "lineToBlock m =
        Some (richBlock (js ''heading_1'') (parseInlineFormatting (drop 2 m)))"
      by (simp add: d)
    moreover have "blockLines (richBlock (js ''heading_1'') (parseInlineFormatting (drop 2 m))) = Inr [m]"
      by (rule rich_case [OF _ h1(2)]) (simp_all add: marker_def)
    ultimately show ?thesis by simp
  next
    case h2
    then have "lineToBlock m =
        Some (richBlock (js ''heading_2'') (parseInlineFormatting (drop 3 m)))"
      by (simp add: d)
    moreover have "blockLines (richBlock (js ''heading_2'') (parseInlineFormatting (drop 3 m))) = Inr [m]"
      by (rule rich_case [OF _ h2(3)]) (simp_all add: marker_def)
    ultimately show ?thesis by simp
  next
    case h3
    then have "lineToBlock m =
        Some (richBlock (js ''heading_3'') (parseInlineFormatting (drop 4 m)))"
      by (simp add: d)
    moreover have "blockLines (richBlock (js ''heading_3'') (parseInlineFormatting (drop 4 m))) = Inr [m]"
      by (rule rich_case [OF _ h3(4)]) (simp_all add: marker_def)
    ultimately show ?thesis by simp
  next
    case t0
    from t0(5) have "\<not> ?t1" by (auto simp: startsWith_append)
    with t0 have "lineToBlock m = Some (todoBlock (parseInlineFormatting (drop 6 m)) False)"
      by (simp add: d)
    moreover have "blockLines (todoBlock (parseInlineFormatting (drop 6 m)) False) = Inr [m]"
      using t0(5) by (intro todo_case) simp
    ultimately show ?thesis by simp
  next
    case t1
    then have "lineToBlock m = Some (todoBlock (parseInlineFormatting (drop 6 m)) True)"
      by (simp add: d)
    moreover have "blockLines (todoBlock (parseInlineFormatting (drop 6 m)) True) = Inr [m]"
      using t1(6) by (intro todo_case) simp
    ultimately show ?thesis by simp
  next
    case bu
    then have "lineToBlock m =
        Some (richBlock (js ''bulleted_list_item'') (parseInlineFormatting (drop 2 m)))"
      by (simp add: d)
    moreover have "blockLines (richBlock (js ''bulleted_list_item'')
        (parseInlineFormatting (drop 2 m))) = Inr [m]"
      by (rule rich_case [OF _ bu(7)]) (simp_all add: marker_def)
    ultimately show ?thesis by simp
  next
    case nu
    then obtain g where g: "numberedMatch m = Some g" by auto
    with num have m: "m = js ''1. '' @ g" by simp
    have "lineToBlock m =
        Some (richBlock (js ''numbered_list_item'') (parseInlineFormatting g))"
      using nu star g by (simp add: d)
    moreover have "blockLines (richBlock (js ''numbered_list_item'')
        (parseInlineFormatting g)) = Inr [js ''1. '' @ g]"
      by (rule blockLines_richBlock) (simp add: marker_def)
    ultimately show ?thesis using m by simp
  next
    case qu
    then have "lineToBlock m =
        Some (richBlock (js ''quote'') (parseInlineFormatting (drop 2 m)))"
      using star by (simp add: d)
    moreover have "blockLines (richBlock (js ''quote'') (parseInlineFormatting (drop 2 m))) = Inr [m]"
      by (rule rich_case [OF _ qu(9)]) (simp_all add: marker_def)
    ultimately show ?thesis by simp
  next
    case dv
    from t dv(10) have "trim m = js ''---''" by simp
    then have "lineToBlock m = Some dividerBlock"
      by (simp add: lineToBlock_def Let_def numberedMatch_def isDigit_def)
    then show ?thesis using dv(10) by (simp add: blockLines_dividerBlock)
  next
    case pa
    then have "lineToBlock m =
        Some (richBlock (js ''paragraph'') (parseInlineFormatting m))"
      using star div by (simp add: d)
    moreover have "blockLines (richBlock (js ''paragraph'') (parseInlineFormatting m)) = Inr [[] @ m]"
      by (rule blockLines_richBlock) (simp add: marker_def)
    ultimately show ?thesis by simp
  qed
qed

text \<open>
  Claim C2 fails as stated: the renderer writes every numbered item as \<open>1. \<close>, every
  bullet as \<open>- \<close> and every divider as \<open>---\<close>, and the classifier trims the line. The
  single numbered item \<open>2. **bold**\<close>, with one annotation, comes back as
  \<open>1. **bold**\<close>.
\<close>

theorem round_trip_counterexample:
  "blocksToMarkdown (markdownToBlocks (js ''2. **bold**'')) = Inr (js ''1. **bold**'') \<and>
   blocksToMarkdown (markdownToBlocks (js ''2. **bold**'')) \<noteq> Inr (js ''2. **bold**'')"
  by code_simp

text \<open>
  Claim C2, amended. \<open>blocksToMarkdown (markdownToBlocks m) = m\<close> for every \<open>m\<close> of one
  line, without leading or trailing white space, that does not open a code fence and is
  written the way the renderer writes its block: not a bullet with \<open>* \<close>, not a
  numbered item other than \<open>1. \<close> followed by its text, not the divider \<open>***\<close> or
  \<open>___\<close>. The inline content is arbitrary: any number of annotations and links.
\<close>

theorem round_trip_single_line:
  assumes "0x0A \<notin> set m"
    and "trim m = m"
    and "\<not> startsWith m [0x60, 0x60, 0x60]"
    and "\<not> startsWith m (js ''* '')"
    and "\<forall>g. numberedMatch m = Some g \<longrightarrow> m = js ''1. '' @ g"
    and "m \<noteq> js ''***''" and "m \<noteq> js ''___''"
  shows "blocksToMarkdown (markdownToBlocks m) = Inr m"
proof (cases "lineToBlock m")
  case None
  with lineToBlock_renders [OF assms(2,4,5,6,7)] have "m = []" by simp
  moreover have "markdownToBlocks m = []"
    using None by (simp add: markdownToBlocks_single [OF assms(1,3)])
  ultimately show ?thesis by (simp add: blocksToMarkdown_Nil)
next
  case (Some b)
  with lineToBlock_renders [OF assms(2,4,5,6,7)] have "blockLines b = Inr [m]" by simp
  moreover have "markdownToBlocks m = [b]"
    using Some by (simp add: markdownToBlocks_single [OF assms(1,3)])
  ultimately show ?thesis by (simp add: blocksToMarkdown_one_line)
qed

theorem round_trip_single_line_witness:
  "blocksToMarkdown (markdownToBlocks (js ''**bold**'')) = Inr (js ''**bold**'') \<and>
   blocksToMarkdown (markdownToBlocks (js ''- [x] see [text](url)'')) =
     Inr (js ''- [x] see [text](url)'')"
proof -
  have a: "0x0A \<notin> set (js ''**bold**'')" "trim (js ''**bold**'') = js ''**bold**''"
    "\<not> startsWith (js ''**bold**'') [0x60, 0x60, 0x60]"
    "\<not> startsWith (js ''**bold**'') (js ''* '')"
    "\<forall>g. numberedMatch (js ''**bold**'') = Some g \<longrightarrow> js ''**bold**'' = js ''1. '' @ g"
    "js ''**bold**'' \<noteq> js ''***''" "js ''**bold**'' \<noteq> js ''___''"
    by (simp_all add: trim_def isWhiteSpace_def isLineTerminator_def numberedMatch_def isDigit_def)
  have b: "0x0A \<notin> set (js ''- [x] see [text](url)'')"
    "trim (js ''- [x] see [text](url)'') = js ''- [x] see [text](url)''"
    "\<not> startsWith (js ''- [x] see [text](url)'') [0x60, 0x60, 0x60]"
    "\<not> startsWith (js ''- [x] see [text](url)'') (js ''* '')"
    "\<forall>g. numberedMatch (js ''- [x] see [text](url)'') = Some g \<longrightarrow>
       js ''- [x] see [text](url)'' = js ''1. '' @ g"
    "js ''- [x] see [text](url)'' \<noteq> js ''***''" "js ''- [x] see [text](url)'' \<noteq> js ''___''"
    by (simp_all add: trim_def isWhiteSpace_def isLineTerminator_def numberedMatch_def isDigit_def)
  show ?thesis
    using round_trip_single_line [OF a] round_trip_single_line [OF b] by (rule conjI)
qed

section \<open>The plain-text extractor\<close>

text \<open>
  Claim C9, at a block whose \<open>rich_text\<close> payload is the string \<open>abc\<close>, not an array
  of runs: the payload is not recognizable, so by the claim the block contributes nothing
  and the result is the empty string. \<open>blocksToPlainText\<close> tests only the truthiness of
  \<open>rich_text\<close> and calls \<open>map\<close> on it, which raises a TypeError, where
  \<open>richTextToMarkdown\<close> tests \<open>Array.isArray\<close> first, so that \<open>blocksToMarkdown\<close>
  renders the same block as the empty string. On the empty array, and on blocks whose
  payload is an array of runs or absent, the function returns what the claim says.
\<close>

theorem blocksToPlainText_non_array:
  "blocksToPlainText
     [JObj [(js ''type'', JStr (js ''paragraph'')),
            (js ''paragraph'', JObj [(js ''rich_text'', JStr (js ''abc''))])]] =
     Inl TypeError \<and>
   blocksToMarkdown
     [JObj [(js ''type'', JStr (js ''paragraph'')),
            (js ''paragraph'', JObj [(js ''rich_text'', JStr (js ''abc''))])]] =
     Inr [] \<and>
   blocksToPlainText [] = Inr [] \<and>
   blocksToPlainText
     [richBlock (js ''paragraph'') [plainRun (js ''Hello'')],
      dividerBlock,
      richBlock (js ''quote'') [],
      richBlock (js ''heading_1'') (parseInlineFormatting (js ''a *b*''))] =
     Inr (js ''Hello'' @ [0x0A] @ js ''a b'')"
  by code_simp

end
